theory Spec2Isabelle
  imports Complex_Main
begin

section \<open>The session component (App): data model\<close>

text \<open>
  JavaScript numbers are modelled as follows: positions, velocities, angles and the cooking
  progress are \<open>real\<close> (the rounding of IEEE doubles is not modelled); counters, timers and
  scores, which the program only ever sets to integers, are \<open>int\<close>.

  Modelled from the spec: the declarations of \<open>types.ts\<close> (GameState, FishCookState,
  GrillSlot, Player, Point, Obstacle, Decoration, PowerUp) are not among the sources; the
  types below are read off the object literals of the program and the data model of the
  specification.
\<close>

datatype GameState = MENU | PLAYING | GAME_OVER

datatype FishCookState = Raw | Perfect | Burnt

record GrillSlot =
  g_id :: string
  g_progress :: real
  g_state :: FishCookState
  g_isCooking :: bool

text \<open>The React state of \<open>App\<close>: one field per \<open>useState\<close>.\<close>

record App =
  gameState :: GameState
  score :: int
  highScore :: int
  status :: "string option"
  avalancheDist :: int
  isMuted :: bool
  fishInventory :: int
  grillSlots :: "GrillSlot list"

definition emptySlots :: "GrillSlot list" where
  "emptySlots =
     [\<lparr>g_id = ''1'', g_progress = 0, g_state = Raw, g_isCooking = False\<rparr>,
      \<lparr>g_id = ''2'', g_progress = 0, g_state = Raw, g_isCooking = False\<rparr>,
      \<lparr>g_id = ''3'', g_progress = 0, g_state = Raw, g_isCooking = False\<rparr>]"

text \<open>The initial values of the \<open>useState\<close> hooks.\<close>

definition initialApp :: App where
  "initialApp =
     \<lparr>gameState = MENU, score = 0, highScore = 0, status = None, avalancheDist = 100,
      isMuted = False, fishInventory = 0, grillSlots = emptySlots\<rparr>"

section \<open>The session component (App): operations\<close>

text \<open>The calls that the handlers of \<open>App\<close> make to the audio service are left out.\<close>

definition startGame :: "App \<Rightarrow> App" where
  "startGame a =
     a\<lparr>score := 0, gameState := PLAYING, status := None, fishInventory := 0,
       grillSlots := emptySlots\<rparr>"

definition handleGameOver :: "int \<Rightarrow> App \<Rightarrow> App" where
  "handleGameOver finalScore a =
     (let a1 = a\<lparr>gameState := GAME_OVER\<rparr>
      in if finalScore > highScore a then a1\<lparr>highScore := finalScore\<rparr> else a1)"

definition handleScoreUpdate :: "int \<Rightarrow> real \<Rightarrow> string option \<Rightarrow> int \<Rightarrow> App \<Rightarrow> App" where
  "handleScoreUpdate currentScore currentSpeed currentStatus dst a =
     a\<lparr>score := currentScore, status := currentStatus, avalancheDist := dst\<rparr>"

definition toggleAudio :: "App \<Rightarrow> App" where
  "toggleAudio a = a\<lparr>isMuted := \<not> isMuted a\<rparr>"

text \<open>The callback of the 50 ms cooking interval, for one slot.\<close>

definition cookSlot :: "GrillSlot \<Rightarrow> GrillSlot" where
  "cookSlot slot =
     (if \<not> g_isCooking slot then slot
      else
        let newProgress = g_progress slot + 0.8;
            newState = (if newProgress > 100 then Burnt
                        else if newProgress > 60 then Perfect
                        else g_state slot)
        in if newState = Burnt
           then slot\<lparr>g_isCooking := False, g_progress := 0, g_state := Raw\<rparr>
           else slot\<lparr>g_progress := newProgress, g_state := newState\<rparr>)"

text \<open>The interval exists only while the game state is PLAYING.\<close>

definition cookTick :: "App \<Rightarrow> App" where
  "cookTick a =
     (if gameState a = PLAYING then a\<lparr>grillSlots := map cookSlot (grillSlots a)\<rparr> else a)"

text \<open>\<open>Array.prototype.findIndex\<close>: the first index whose element satisfies the test.\<close>

fun findIndex :: "('a \<Rightarrow> bool) \<Rightarrow> 'a list \<Rightarrow> nat option" where
  "findIndex P [] = None"
| "findIndex P (z # zs) =
     (if P z then Some 0 else map_option Suc (findIndex P zs))"

definition handleCollectFish :: "App \<Rightarrow> App" where
  "handleCollectFish a =
     (let prev = grillSlots a
      in case findIndex (\<lambda>s. \<not> g_isCooking s) prev of
           Some idx \<Rightarrow>
             a\<lparr>grillSlots :=
                 prev[idx := (prev ! idx)\<lparr>g_isCooking := True, g_progress := 0, g_state := Raw\<rparr>]\<rparr>
         | None \<Rightarrow> a)"

text \<open>
  \<open>handleSlotTap\<close> reads \<open>grillSlots[index]\<close> and then its field \<open>isCooking\<close>: for an index
  outside the array the read yields \<open>undefined\<close> and the field access throws a TypeError,
  which is the result \<open>None\<close> here.
\<close>

definition handleSlotTap :: "nat \<Rightarrow> App \<Rightarrow> App option" where
  "handleSlotTap index a =
     (if index \<ge> length (grillSlots a) then None
      else
        let slot = grillSlots a ! index
        in if \<not> g_isCooking slot then Some a
           else if g_state slot = Perfect then
             (if fishInventory a < 3
              then Some (a\<lparr>fishInventory := fishInventory a + 1,
                           grillSlots := (grillSlots a)[index :=
                             (grillSlots a ! index)\<lparr>g_isCooking := False, g_progress := 0,
                                                   g_state := Raw\<rparr>]\<rparr>)
              else Some a)
           else Some a)"

definition handleDeliverFish :: "App \<Rightarrow> App" where
  "handleDeliverFish a = a\<lparr>fishInventory := max 0 (fishInventory a - 1)\<rparr>"

text \<open>
  The callbacks that \<open>GameCanvas\<close> receives from \<open>App\<close> (game over, score update,
  collect fish, deliver fish) and the calls it makes to the audio service, as the events a
  physics tick emits, in the order of the calls.
\<close>

datatype PowerUpType = Fish | Sunglasses

datatype sound = PlayJump | PlayCrash | PlayCheer | PlayApplause | PlayPowerUp PowerUpType
  | SetEmergencyMode bool

datatype event =
    OnGameOver int
  | OnScoreUpdate int real "string option" int
  | OnCollectFish
  | OnDeliverFish
  | Audio sound

text \<open>
  What can happen to the state of \<open>App\<close>: the two buttons that call \<open>startGame\<close> (they
  exist only in the MENU and GAME-OVER views), the cooking interval, a tap on a grill button
  (the grill exists only in the PLAYING view), the mute button, and a callback invoked by
  \<open>GameCanvas\<close>. Each state update is taken to be applied before the next action runs.
\<close>

datatype action = Start | CookTimer | Tap nat | ToggleAudio | Callback event

fun appCallback :: "event \<Rightarrow> App \<Rightarrow> App" where
  "appCallback (OnGameOver finalScore) a = handleGameOver finalScore a"
| "appCallback (OnScoreUpdate sc sp st d) a = handleScoreUpdate sc sp st d a"
| "appCallback OnCollectFish a = handleCollectFish a"
| "appCallback OnDeliverFish a = handleDeliverFish a"
| "appCallback (Audio sd) a = a"

text \<open>\<open>None\<close>: the action is not offered by the current view, or its handler throws.\<close>

fun appStep :: "action \<Rightarrow> App \<Rightarrow> App option" where
  "appStep Start a = (if gameState a = PLAYING then None else Some (startGame a))"
| "appStep CookTimer a = Some (cookTick a)"
| "appStep (Tap i) a = (if gameState a = PLAYING then handleSlotTap i a else None)"
| "appStep ToggleAudio a = Some (toggleAudio a)"
| "appStep (Callback e) a = Some (appCallback e a)"

fun appRun :: "action list \<Rightarrow> App \<Rightarrow> App option" where
  "appRun [] a = Some a"
| "appRun (act # acts) a =
     (case appStep act a of None \<Rightarrow> None | Some a' \<Rightarrow> appRun acts a')"

section \<open>The simulation component (GameCanvas): data model\<close>

record Point =
  pt_x :: real
  pt_y :: real

datatype ObstacleType = RockSmall

record Obstacle =
  o_x :: real
  o_y :: real
  o_type :: ObstacleType
  o_width :: real
  o_height :: real
  o_passed :: bool

datatype DecorationType = TreeTall | TreeShort | Cabin

text \<open>
  The field \<open>delivered\<close> is optional in the program and left out of the trees; there it reads
  as \<open>undefined\<close>, which \<open>!dec.delivered\<close> treats like \<open>false\<close>: the value \<open>False\<close> here.
\<close>

record Decoration =
  d_x :: real
  d_y :: real
  d_type :: DecorationType
  d_width :: real
  d_height :: real
  d_delivered :: bool

record PowerUp =
  pu_x :: real
  pu_y :: real
  pu_type :: PowerUpType
  pu_collected :: bool

record Player =
  p_x :: real
  p_y :: real
  p_vx :: real
  p_vy :: real
  p_rotation :: real
  p_isGrounded :: bool
  p_isDead :: bool
  p_score :: int
  p_boostTimer :: int
  p_backflipCount :: int
  p_totalBackflips :: int
  p_invincibleTimer :: int
  p_flightTimer :: int
  p_fishInventory :: int

text \<open>
  The refs of \<open>GameCanvas\<close> that the simulation reads or writes. The particles and the camera
  position, which only the drawing code reads, and the drawing itself are left out.
\<close>

record Game =
  player :: Player
  terrain :: "Point list"
  obstacles :: "Obstacle list"
  decorations :: "Decoration list"
  powerUps :: "PowerUp list"
  cameraShake :: real
  avalancheX :: real
  isHolding :: bool
  fishInventoryRef :: int

subsection \<open>Constants\<close>

definition GRAVITY :: real where "GRAVITY = 0.6"
definition JUMP_FORCE :: real where "JUMP_FORCE = - 15"
definition ROTATION_SPEED :: real where "ROTATION_SPEED = 0.24"
definition FRICTION :: real where "FRICTION = 0.99"
definition BASE_SPEED :: real where "BASE_SPEED = 8"
definition MAX_SPEED :: real where "MAX_SPEED = 20"
definition BOOST_SPEED :: real where "BOOST_SPEED = 25"
definition FLIGHT_SPEED :: real where "FLIGHT_SPEED = 28"
definition TERRAIN_SEGMENT_WIDTH :: nat where "TERRAIN_SEGMENT_WIDTH = 40"
definition SLOPE_DROP :: real where "SLOPE_DROP = 15"
definition GAME_WIDTH :: nat where "GAME_WIDTH = 720"

text \<open>The thresholds of the landing judgement, in radians.\<close>

definition PERFECT_THRESHOLD :: real where "PERFECT_THRESHOLD = 30 * (pi / 180)"
definition CRASH_THRESHOLD :: real where "CRASH_THRESHOLD = 70 * (pi / 180)"

subsection \<open>Library functions of JavaScript\<close>

text \<open>The remainder operator \<open>%\<close> on numbers: the quotient is truncated towards zero.\<close>

definition trunc :: "real \<Rightarrow> int" where
  "trunc r = (if r \<ge> 0 then \<lfloor>r\<rfloor> else \<lceil>r\<rceil>)"

definition fmod :: "real \<Rightarrow> real \<Rightarrow> real" where
  "fmod a b = a - b * of_int (trunc (a / b))"

definition hypot :: "real \<Rightarrow> real \<Rightarrow> real" where
  "hypot a b = sqrt (a * a + b * b)"

text \<open>\<open>Math.atan2(dy, dx)\<close>: the angle of the point \<open>(dx, dy)\<close>, in \<open>(-\<pi>, \<pi>]\<close>.\<close>

definition atan2 :: "real \<Rightarrow> real \<Rightarrow> real" where
  "atan2 dy dx =
     (if dx > 0 then arctan (dy / dx)
      else if dx < 0 then (if dy \<ge> 0 then arctan (dy / dx) + pi else arctan (dy / dx) - pi)
      else if dy > 0 then pi / 2
      else if dy < 0 then - (pi / 2)
      else 0)"

section \<open>The simulation component: initialisation and terrain\<close>

text \<open>The values of the \<open>useRef\<close> hooks before the first run.\<close>

definition initialGame :: Game where
  "initialGame =
     \<lparr>player = \<lparr>p_x = 200, p_y = 0, p_vx = BASE_SPEED, p_vy = 0, p_rotation = 0,
                p_isGrounded = False, p_isDead = False, p_score = 0, p_boostTimer = 0,
                p_backflipCount = 0, p_totalBackflips = 0, p_invincibleTimer = 0,
                p_flightTimer = 0, p_fishInventory = 0\<rparr>,
      terrain = [], obstacles = [], decorations = [], powerUps = [],
      cameraShake = 0, avalancheX = - 500, isHolding = False, fishInventoryRef = 0\<rparr>"

text \<open>
  The loop of \<open>initGame\<close> that lays out the first terrain: \<open>i\<close> runs from 0 in steps of the
  segment width while it is below twice the game width. \<open>rs k\<close> is the value of the \<open>k\<close>-th
  call of \<open>Math.random\<close>.
\<close>

function initTerrain :: "(nat \<Rightarrow> real) \<Rightarrow> nat \<Rightarrow> nat \<Rightarrow> real \<Rightarrow> Point list" where
  "initTerrain rs k i ty =
     (if i < GAME_WIDTH * 2
      then (let ty' = ty + (SLOPE_DROP + (rs k - 0.5) * 10)
            in \<lparr>pt_x = real i, pt_y = ty'\<rparr>
               # initTerrain rs (Suc k) (i + TERRAIN_SEGMENT_WIDTH) ty')
      else [])"
  by pat_completeness auto
termination
  by (relation "measure (\<lambda>(rs, k, i, ty). GAME_WIDTH * 2 - i)")
     (auto simp: GAME_WIDTH_def TERRAIN_SEGMENT_WIDTH_def)

definition initGame :: "(nat \<Rightarrow> real) \<Rightarrow> Game \<Rightarrow> Game" where
  "initGame rs g =
     g\<lparr>player := \<lparr>p_x = 100, p_y = 200, p_vx = BASE_SPEED, p_vy = 0, p_rotation = 0,
                   p_isGrounded = False, p_isDead = False, p_score = 0, p_boostTimer = 0,
                   p_backflipCount = 0, p_totalBackflips = 0, p_invincibleTimer = 0,
                   p_flightTimer = 0, p_fishInventory = 0\<rparr>,
       terrain := initTerrain rs 0 0 200,
       obstacles := [], decorations := [], powerUps := [],
       avalancheX := - 800, cameraShake := 0\<rparr>"

text \<open>
  The values that the calls of \<open>Math.random\<close> in one call of \<open>updateTerrain\<close> return, one
  field per call site, in the order of the calls; a call site that is not reached leaves its
  field unused.
\<close>

record Rnd =
  r_noise :: real
  r_decoration :: real
  r_cabin :: real
  r_treeX :: real
  r_treeType :: real
  r_rock :: real
  r_powerUp :: real
  r_powerUpType :: real

definition spawnDecoration :: "Rnd \<Rightarrow> real \<Rightarrow> real \<Rightarrow> Decoration list \<Rightarrow> Decoration list" where
  "spawnDecoration r nextX nextY decs =
     (if r_decoration r < 0.10 then
        (if r_cabin r < 0.10
         then decs @ [\<lparr>d_x = nextX + 20, d_y = nextY + 10, d_type = Cabin,
                        d_width = 80, d_height = 80, d_delivered = False\<rparr>]
         else decs @ [\<lparr>d_x = nextX + r_treeX r * 20, d_y = nextY + 10,
                        d_type = (if r_treeType r > 0.3 then TreeTall else TreeShort),
                        d_width = 40, d_height = 100, d_delivered = False\<rparr>])
      else decs)"

text \<open>
  \<open>updateTerrain\<close> has two sections. The first adds a terrain point ahead of the player when
  the last one is nearer than two game widths, and spawns entities on it.
\<close>

definition addTerrain :: "Rnd \<Rightarrow> real \<Rightarrow> Game \<Rightarrow> Game" where
  "addTerrain r playerX g =
     (let lastPoint = last (terrain g)
      in if pt_x lastPoint < playerX + real (GAME_WIDTH * 2) then
           (let nextX = pt_x lastPoint + real TERRAIN_SEGMENT_WIDTH;
                noise = sin (nextX * 0.01) * 15 + (r_noise r - 0.5) * 10;
                nextY = pt_y lastPoint + SLOPE_DROP + noise
            in g\<lparr>terrain := terrain g @ [\<lparr>pt_x = nextX, pt_y = nextY\<rparr>],
                 decorations := spawnDecoration r nextX nextY (decorations g),
                 obstacles :=
                   (if r_rock r < 0.01
                    then obstacles g @ [\<lparr>o_x = nextX, o_y = nextY, o_type = RockSmall,
                           o_width = 40, o_height = 30, o_passed = False\<rparr>]
                    else obstacles g),
                 powerUps :=
                   (if \<not> r_rock r < 0.01 \<and> r_powerUp r < 0.012
                    then powerUps g @ [\<lparr>pu_x = nextX, pu_y = nextY - 60,
                           pu_type = (if r_powerUpType r > 0.3 then Fish else Sunglasses),
                           pu_collected = False\<rparr>]
                    else powerUps g)\<rparr>)
         else g)"

text \<open>
  The second section removes, from each of the four collections, the first element when it
  lies more than a game width behind the player.
\<close>

definition cleanupTerrain :: "real \<Rightarrow> Game \<Rightarrow> Game" where
  "cleanupTerrain playerX g =
     (let cleanupX = playerX - real GAME_WIDTH;
          g2 = (if pt_x (hd (terrain g)) < cleanupX
                then g\<lparr>terrain := tl (terrain g)\<rparr> else g);
          g3 = (if obstacles g2 \<noteq> [] \<and> o_x (hd (obstacles g2)) < cleanupX
                then g2\<lparr>obstacles := tl (obstacles g2)\<rparr> else g2);
          g4 = (if decorations g3 \<noteq> [] \<and> d_x (hd (decorations g3)) < cleanupX
                then g3\<lparr>decorations := tl (decorations g3)\<rparr> else g3);
          g5 = (if powerUps g4 \<noteq> [] \<and> pu_x (hd (powerUps g4)) < cleanupX
                then g4\<lparr>powerUps := tl (powerUps g4)\<rparr> else g4)
      in g5)"

text \<open>
  \<open>updateTerrain\<close> reads the last and the first terrain point without a test: on an empty
  terrain the read of \<open>lastPoint.x\<close> throws a TypeError, the result \<open>None\<close>.
\<close>

definition updateTerrain :: "Rnd \<Rightarrow> real \<Rightarrow> Game \<Rightarrow> Game option" where
  "updateTerrain r playerX g =
     (if terrain g = [] then None
      else Some (cleanupTerrain playerX (addTerrain r playerX g)))"

text \<open>
  \<open>getGroundY\<close>: the first pair of consecutive terrain points that brackets \<open>x\<close> gives the
  interpolated height and the slope angle; without such a pair the result is the height
  100000 and the angle 0. The result is the pair (height, angle).
\<close>

fun getGroundY :: "Point list \<Rightarrow> real \<Rightarrow> real \<times> real" where
  "getGroundY (p1 # p2 # t) x =
     (if x \<ge> pt_x p1 \<and> x < pt_x p2 then
        (let ratio = (x - pt_x p1) / (pt_x p2 - pt_x p1);
             y = pt_y p1 + (pt_y p2 - pt_y p1) * ratio;
             angle = atan2 (pt_y p2 - pt_y p1) (pt_x p2 - pt_x p1)
         in (y, angle))
      else getGroundY (p2 # t) x)"
| "getGroundY t x = (100000, 0)"

section \<open>The simulation component: the physics tick\<close>

text \<open>
  \<open>updatePhysics\<close> is one function in the program; its sections are separate definitions
  here, in the order of the program, and \<open>updatePhysics\<close> below composes them. The calls to
  \<open>createParticles\<close> are left out.
\<close>

subsection \<open>Timers, speed, movement, gravity\<close>

definition tickTimers :: "Player \<Rightarrow> Player" where
  "tickTimers p =
     (let p1 = (if p_invincibleTimer p > 0
                then p\<lparr>p_invincibleTimer := p_invincibleTimer p - 1\<rparr> else p);
          p2 = (if p_flightTimer p1 > 0
                then p1\<lparr>p_flightTimer := p_flightTimer p1 - 1\<rparr> else p1);
          p3 = (if p_boostTimer p2 > 0
                then p2\<lparr>p_boostTimer := p_boostTimer p2 - 1\<rparr> else p2)
      in p3)"

definition targetSpeed :: "Player \<Rightarrow> real" where
  "targetSpeed p =
     (if p_invincibleTimer p > 0 then MAX_SPEED * 1.2
      else if p_flightTimer p > 0 then FLIGHT_SPEED
      else if p_boostTimer p > 0 then BOOST_SPEED
      else MAX_SPEED)"

definition gravityAssist :: "Player \<Rightarrow> Player" where
  "gravityAssist p =
     (if p_vx p < targetSpeed p then p\<lparr>p_vx := p_vx p + 0.1\<rparr>
      else p\<lparr>p_vx := p_vx p * FRICTION\<rparr>)"

definition movePlayer :: "Player \<Rightarrow> Player" where
  "movePlayer p = p\<lparr>p_x := p_x p + p_vx p, p_y := p_y p + p_vy p\<rparr>"

definition asymmetricGravity :: "Player \<Rightarrow> Player" where
  "asymmetricGravity p =
     (if p_flightTimer p \<le> 0 then
        (if p_vy p < 0 then p\<lparr>p_vy := p_vy p + GRAVITY\<rparr>
         else p\<lparr>p_vy := p_vy p + 0.3\<rparr>)
      else
        (let p1 = p\<lparr>p_vy := p_vy p + GRAVITY * 0.3\<rparr>
         in if p_vy p1 > 2 then p1\<lparr>p_vy := 2\<rparr> else p1))"

text \<open>The player at the point where the floor collision starts.\<close>

definition integrate :: "Game \<Rightarrow> Player" where
  "integrate g =
     asymmetricGravity (movePlayer (gravityAssist (tickTimers
       ((player g)\<lparr>p_fishInventory := fishInventoryRef g\<rparr>))))"

subsection \<open>Floor collision and landing\<close>

definition normRot :: "real \<Rightarrow> real" where
  "normRot rotation =
     (let n1 = fmod rotation (pi * 2);
          n2 = (if n1 > pi then n1 - pi * 2 else n1);
          n3 = (if n2 < - pi then n2 + pi * 2 else n2)
      in n3)"

text \<open>
  The landing logic, run on a new ground contact: from the player and the camera shake to
  the emitted events, the player and the camera shake.
\<close>

definition landing :: "real \<Rightarrow> Player \<Rightarrow> real \<Rightarrow> event list \<times> Player \<times> real" where
  "landing groundAngle p shake =
     (let angleDiff = \<bar>normRot (p_rotation p) - groundAngle\<bar>
      in if angleDiff > CRASH_THRESHOLD \<and> p_invincibleTimer p \<le> 0 then
           ([Audio PlayCrash], p\<lparr>p_vx := 2, p_rotation := groundAngle\<rparr>, 25)
         else if p_backflipCount p > 0 then
           (if angleDiff < PERFECT_THRESHOLD then
              ([Audio PlayCheer],
               p\<lparr>p_boostTimer := 60 + p_backflipCount p * 30,
                 p_score := p_score p + p_backflipCount p * 300\<rparr>, shake)
            else ([], p\<lparr>p_score := p_score p + p_backflipCount p * 150\<rparr>, shake))
         else ([], p, shake))"

definition collisionThreshold :: "Player \<Rightarrow> real \<Rightarrow> real" where
  "collisionThreshold p groundY = (if p_flightTimer p > 0 then groundY - 150 else groundY - 15)"

text \<open>The test of the floor collision, and the case in which \<open>updatePhysics\<close> returns early.\<close>

definition touchesFloor :: "Player \<Rightarrow> real \<Rightarrow> bool" where
  "touchesFloor p groundY = (p_y p \<ge> collisionThreshold p groundY \<and> p_vy p \<ge> 0)"

definition flightHover :: "Player \<Rightarrow> real \<Rightarrow> bool" where
  "flightHover p groundY = (touchesFloor p groundY \<and> p_flightTimer p > 0)"

text \<open>The rotation while airborne (the else branch of the floor test).\<close>

definition airborne :: "bool \<Rightarrow> real \<Rightarrow> Player \<Rightarrow> Player" where
  "airborne holding groundY p =
     (let p1 = p\<lparr>p_isGrounded := False\<rparr>
      in if holding \<and> p_flightTimer p1 \<le> 0 then
           (let heightFromGround = groundY - p_y p1
            in if heightFromGround > 50 then
                 (let p2 = p1\<lparr>p_rotation := p_rotation p1 - ROTATION_SPEED\<rparr>;
                      totalRot = \<bar>p_rotation p2\<bar>;
                      rotations = \<lfloor>(totalRot + pi / 2) / (pi * 2)\<rfloor>
                  in if rotations > p_backflipCount p2
                     then p2\<lparr>p_backflipCount := rotations\<rparr> else p2)
               else p1)
         else p1)"

text \<open>The floor collision when the tick does not return early.\<close>

definition floorCollision ::
  "bool \<Rightarrow> real \<times> real \<Rightarrow> Player \<Rightarrow> real \<Rightarrow> event list \<times> Player \<times> real" where
  "floorCollision holding ground p shake =
     (let groundY = fst ground; groundAngle = snd ground
      in if touchesFloor p groundY then
           (let (ev, p1, shake1) =
                  (if \<not> p_isGrounded p then landing groundAngle p shake else ([], p, shake))
            in (ev,
                p1\<lparr>p_y := collisionThreshold p groundY, p_vy := 0, p_isGrounded := True,
                   p_backflipCount := 0, p_rotation := groundAngle\<rparr>,
                shake1))
         else ([], airborne holding groundY p, shake))"

subsection \<open>Obstacles, cabins, power-ups\<close>

definition hitsObstacle :: "Point list \<Rightarrow> Player \<Rightarrow> Obstacle \<Rightarrow> bool" where
  "hitsObstacle t p obs =
     (let obsHeight = o_height obs;
          obsY = fst (getGroundY t (o_x obs))
      in p_x p > o_x obs - 7 \<and> p_x p < o_x obs + 7 \<and> p_y p > obsY - obsHeight)"

text \<open>
  The body of \<open>obstaclesRef.current.forEach\<close>, over the obstacles in order: the result is the
  emitted events, the obstacles, the player and the camera shake.
\<close>

fun obstacleLoop ::
  "Point list \<Rightarrow> Obstacle list \<Rightarrow> Player \<Rightarrow> real \<Rightarrow> event list \<times> Obstacle list \<times> Player \<times> real" where
  "obstacleLoop t [] p shake = ([], [], p, shake)"
| "obstacleLoop t (obs # rest) p shake =
     (if o_passed obs then
        (let (ev, rest', p', shake') = obstacleLoop t rest p shake
         in (ev, obs # rest', p', shake'))
      else if hitsObstacle t p obs then
        (let (ev, rest', p', shake') = obstacleLoop t rest (p\<lparr>p_vx := 2\<rparr>) 20
         in (Audio PlayCrash # ev, obs\<lparr>o_passed := True\<rparr> # rest', p', shake'))
      else
        (let (ev, rest', p', shake') = obstacleLoop t rest p shake
         in (ev, obs # rest', p', shake')))"

definition obstacleCollision ::
  "Point list \<Rightarrow> Obstacle list \<Rightarrow> Player \<Rightarrow> real \<Rightarrow> event list \<times> Obstacle list \<times> Player \<times> real" where
  "obstacleCollision t obss p shake =
     (if p_invincibleTimer p \<le> 0 \<and> p_flightTimer p \<le> 0 then obstacleLoop t obss p shake
      else ([], obss, p, shake))"

definition nearCabin :: "Player \<Rightarrow> Decoration \<Rightarrow> bool" where
  "nearCabin p dec =
     (d_type dec = Cabin \<and> \<not> d_delivered dec
      \<and> p_x p > d_x dec - 100 \<and> p_x p < d_x dec + 100
      \<and> \<bar>p_y p - d_y dec\<bar> < 100)"

text \<open>The body of \<open>decorationsRef.current.forEach\<close>.\<close>

fun cabinLoop :: "Decoration list \<Rightarrow> Player \<Rightarrow> event list \<times> Decoration list \<times> Player" where
  "cabinLoop [] p = ([], [], p)"
| "cabinLoop (dec # rest) p =
     (if nearCabin p dec \<and> p_fishInventory p > 0 then
        (let (ev, rest', p') =
               cabinLoop rest (p\<lparr>p_flightTimer := 80, p_score := p_score p + 500\<rparr>)
         in (OnDeliverFish # Audio PlayApplause # ev, dec\<lparr>d_delivered := True\<rparr> # rest', p'))
      else
        (let (ev, rest', p') = cabinLoop rest p
         in (ev, dec # rest', p')))"

definition inPickupRange :: "Player \<Rightarrow> PowerUp \<Rightarrow> bool" where
  "inPickupRange p pu = (hypot (p_x p - pu_x pu) (p_y p - pu_y pu) < 50)"

text \<open>The body of \<open>powerUpsRef.current.forEach\<close>.\<close>

fun powerUpLoop :: "PowerUp list \<Rightarrow> Player \<Rightarrow> event list \<times> PowerUp list \<times> Player" where
  "powerUpLoop [] p = ([], [], p)"
| "powerUpLoop (pu # rest) p =
     (if pu_collected pu then
        (let (ev, rest', p') = powerUpLoop rest p in (ev, pu # rest', p'))
      else if inPickupRange p pu then
        (if pu_type pu = Fish then
           (let (ev, rest', p') = powerUpLoop rest p
            in (OnCollectFish # Audio (PlayPowerUp Fish) # ev,
                pu\<lparr>pu_collected := True\<rparr> # rest', p'))
         else
           (let (ev, rest', p') =
                  powerUpLoop rest (p\<lparr>p_invincibleTimer := 180, p_vy := - 10\<rparr>)
            in (Audio (PlayPowerUp Sunglasses) # ev, pu\<lparr>pu_collected := True\<rparr> # rest', p')))
      else
        (let (ev, rest', p') = powerUpLoop rest p in (ev, pu # rest', p')))"

subsection \<open>Avalanche and HUD\<close>

text \<open>The target speed of the avalanche, before the deduction for invincibility.\<close>

definition avTargetSpeed :: "real \<Rightarrow> real" where
  "avTargetSpeed elapsedSeconds =
     (let baseSpeed = 9 in
      if elapsedSeconds < 30 then baseSpeed + (0.15 * elapsedSeconds)
      else if elapsedSeconds < 90 then 13.5 + (0.2 * (elapsedSeconds - 30))
      else if elapsedSeconds < 120 then 25.5 + (0.075 * (elapsedSeconds - 90))
      else if elapsedSeconds < 180 then 27.75 + (0.03 * (elapsedSeconds - 120))
      else 29.55 + (0.01 * (elapsedSeconds - 180)))"

text \<open>The speed that is added to the avalanche position in a tick.\<close>

definition avalancheAdvance :: "real \<Rightarrow> Player \<Rightarrow> real" where
  "avalancheAdvance elapsedSeconds p =
     (if p_invincibleTimer p > 0 then avTargetSpeed elapsedSeconds - 2
      else avTargetSpeed elapsedSeconds)"

text \<open>
  The avalanche logic: from the avalanche position and the player to the emitted events, the
  new position and the player. \<open>gs\<close> is the game state that the running loop sees.
\<close>

definition avalancheLogic ::
  "real \<Rightarrow> GameState \<Rightarrow> real \<Rightarrow> Player \<Rightarrow> event list \<times> real \<times> Player" where
  "avalancheLogic elapsedSeconds gs avX p =
     (let av1 = avX + avalancheAdvance elapsedSeconds p;
          av2 = (if av1 > p_x p + 100 then p_x p + 100 else av1)
      in if av2 > p_x p - 30 then
           ((if gs = PLAYING then [OnGameOver \<lfloor>p_x p / 10\<rfloor>] else []), av2,
            p\<lparr>p_isDead := True\<rparr>)
         else ([], av2, p))"

definition hudStatus :: "Player \<Rightarrow> string option" where
  "hudStatus p =
     (if p_invincibleTimer p > 0 then Some ''INVINCIBLE!''
      else if p_flightTimer p > 0 then Some ''DELIVERY FLIGHT!''
      else if p_boostTimer p > 0 then Some ''SPEED BOOST!''
      else None)"

definition hudUpdate :: "real \<Rightarrow> Player \<Rightarrow> event list" where
  "hudUpdate avX p =
     (let avDist = max 0 \<lfloor>(p_x p - avX) / 10\<rfloor>
      in [Audio (SetEmergencyMode (avDist < 200)),
          OnScoreUpdate \<lfloor>p_x p / 10\<rfloor> (p_vx p) (hudStatus p) avDist])"

subsection \<open>The tick\<close>

text \<open>
  \<open>updatePhysics\<close>: from the elapsed seconds since the start of the run (read from the
  clock), the game state that the loop sees and the refs, to the events emitted and the refs
  after the tick. In flight mode a tick that touches the hover threshold returns right after
  clamping the player, before the obstacles, the cabins, the power-ups, the avalanche and the
  HUD update.
\<close>

definition updatePhysics :: "real \<Rightarrow> GameState \<Rightarrow> Game \<Rightarrow> event list \<times> Game" where
  "updatePhysics elapsedSeconds gs g =
     (let p = integrate g;
          ground = getGroundY (terrain g) (p_x p)
      in if flightHover p (fst ground) then
           ([], g\<lparr>player := p\<lparr>p_y := collisionThreshold p (fst ground), p_vy := 0\<rparr>\<rparr>)
         else
           (let (ev1, p1, shake1) = floorCollision (isHolding g) ground p (cameraShake g);
                (ev2, obss, p2, shake2) = obstacleCollision (terrain g) (obstacles g) p1 shake1;
                (ev3, decs, p3) = cabinLoop (decorations g) p2;
                (ev4, pus, p4) = powerUpLoop (powerUps g) p3;
                (ev5, avX, p5) = avalancheLogic elapsedSeconds gs (avalancheX g) p4;
                ev6 = hudUpdate avX p5
            in (ev1 @ ev2 @ ev3 @ ev4 @ ev5 @ ev6,
                g\<lparr>player := p5, obstacles := obss, decorations := decs, powerUps := pus,
                  cameraShake := shake2, avalancheX := avX\<rparr>)))"

subsection \<open>Input\<close>

text \<open>
  \<open>handleInputStart\<close>: \<open>clickY\<close> is the pointer position below the top of the canvas and
  \<open>rectHeight\<close> the height of the canvas; \<open>gs\<close> is the game state of the current render.
\<close>

definition handleInputStart :: "real \<Rightarrow> real \<Rightarrow> GameState \<Rightarrow> Game \<Rightarrow> event list \<times> Game" where
  "handleInputStart clickY rectHeight gs g =
     (if clickY > rectHeight - 120 then ([], g)
      else if gs \<noteq> PLAYING then ([], g)
      else
        (let g1 = g\<lparr>isHolding := True\<rparr>; p = player g1
         in if p_isGrounded p then
              ([Audio PlayJump],
               g1\<lparr>player := p\<lparr>p_vy := JUMP_FORCE, p_isGrounded := False, p_y := p_y p - 10\<rparr>\<rparr>)
            else if p_flightTimer p > 0 then
              ([], g1\<lparr>player := p\<lparr>p_vy := JUMP_FORCE * 0.6\<rparr>\<rparr>)
            else ([], g1)))"

definition handleInputEnd :: "Game \<Rightarrow> Game" where
  "handleInputEnd g = g\<lparr>isHolding := False\<rparr>"

section \<open>The whole program: App and GameCanvas together\<close>

record Sys =
  app :: App
  game :: Game

definition initialSys :: Sys where
  "initialSys = \<lparr>app = initialApp, game = initialGame\<rparr>"

text \<open>The effect that copies the inventory of \<open>App\<close> into \<open>fishInventoryRef\<close> after a render.\<close>

definition syncInventory :: "Sys \<Rightarrow> Sys" where
  "syncInventory s = s\<lparr>game := (game s)\<lparr>fishInventoryRef := fishInventory (app s)\<rparr>\<rparr>"

text \<open>
  \<open>gameLoop\<close>, one animation frame: nothing unless the game state is PLAYING, else the terrain
  update and the physics tick (the frame counter and the drawing are left out). In the
  program the loop ends when the effect on the game state cancels the pending animation
  frame; here this is the test of the current game state at the start of the frame.
\<close>

definition gameLoop :: "real \<Rightarrow> Rnd \<Rightarrow> GameState \<Rightarrow> Game \<Rightarrow> (event list \<times> Game) option" where
  "gameLoop elapsedSeconds r gs g =
     (if gs \<noteq> PLAYING then Some ([], g)
      else case updateTerrain r (p_x (player g)) g of
             None \<Rightarrow> None
           | Some g1 \<Rightarrow> Some (updatePhysics elapsedSeconds gs g1))"

text \<open>
  What the environment does to the program: a click on a start or retry button (with the
  random numbers that \<open>initGame\<close> draws), an animation frame (with the elapsed seconds on the
  clock and the random numbers that \<open>updateTerrain\<close> draws), pointer down and up on the canvas,
  a tap on a grill slot, a period of the cooking interval, a click on the mute button.
  A frame hands the events that the tick emits to the handlers of \<open>App\<close>, in their order;
  every state update and effect is taken to be complete before the next input.
\<close>

datatype input =
    ClickStart "nat \<Rightarrow> real"
  | Frame real Rnd
  | PointerDown real real
  | PointerUp
  | TapSlot nat
  | CookInterval
  | ClickMute

definition dispatch :: "event list \<Rightarrow> App \<Rightarrow> App" where
  "dispatch evs a = foldl (\<lambda>a' e. appCallback e a') a evs"

fun sysStep :: "input \<Rightarrow> Sys \<Rightarrow> (event list \<times> Sys) option" where
  "sysStep (ClickStart rs) s =
     (case appStep Start (app s) of
        None \<Rightarrow> None
      | Some a' \<Rightarrow> Some ([], syncInventory \<lparr>app = a', game = initGame rs (game s)\<rparr>))"
| "sysStep (Frame elapsedSeconds r) s =
     (case gameLoop elapsedSeconds r (gameState (app s)) (game s) of
        None \<Rightarrow> None
      | Some (evs, g') \<Rightarrow> Some (evs, syncInventory \<lparr>app = dispatch evs (app s), game = g'\<rparr>))"
| "sysStep (PointerDown clickY rectHeight) s =
     (let (evs, g') = handleInputStart clickY rectHeight (gameState (app s)) (game s)
      in Some (evs, s\<lparr>game := g'\<rparr>))"
| "sysStep PointerUp s = Some ([], s\<lparr>game := handleInputEnd (game s)\<rparr>)"
| "sysStep (TapSlot i) s =
     (case appStep (Tap i) (app s) of
        None \<Rightarrow> None
      | Some a' \<Rightarrow> Some ([], syncInventory (s\<lparr>app := a'\<rparr>)))"
| "sysStep CookInterval s =
     (case appStep CookTimer (app s) of
        None \<Rightarrow> None
      | Some a' \<Rightarrow> Some ([], s\<lparr>app := a'\<rparr>))"
| "sysStep ClickMute s =
     (case appStep ToggleAudio (app s) of
        None \<Rightarrow> None
      | Some a' \<Rightarrow> Some ([], s\<lparr>app := a'\<rparr>))"

text \<open>A sequence of inputs: the events emitted, in order, and the final state.\<close>

fun sysRun :: "input list \<Rightarrow> Sys \<Rightarrow> (event list \<times> Sys) option" where
  "sysRun [] s = Some ([], s)"
| "sysRun (i # ins) s =
     (case sysStep i s of
        None \<Rightarrow> None
      | Some (evs, s') \<Rightarrow>
          (case sysRun ins s' of
             None \<Rightarrow> None
           | Some (evs', s'') \<Rightarrow> Some (evs @ evs', s'')))"

fun isGameOver :: "event \<Rightarrow> bool" where
  "isGameOver (OnGameOver n) = True"
| "isGameOver e = False"

fun isStart :: "input \<Rightarrow> bool" where
  "isStart (ClickStart rs) = True"
| "isStart i = False"

section \<open>Notions used in the statements\<close>

text \<open>The tick returns early: the player, after integration, hovers in flight mode.\<close>

definition returnsEarly :: "Game \<Rightarrow> bool" where
  "returnsEarly g = flightHover (integrate g) (fst (getGroundY (terrain g) (p_x (integrate g))))"

text \<open>What the three loops of the tick do to one element, seen from the player \<open>p\<close>.\<close>

definition markHit :: "Point list \<Rightarrow> Player \<Rightarrow> Obstacle \<Rightarrow> Obstacle" where
  "markHit t p obs =
     (if \<not> o_passed obs \<and> hitsObstacle t p obs then obs\<lparr>o_passed := True\<rparr> else obs)"

definition anyHit :: "Point list \<Rightarrow> Player \<Rightarrow> Obstacle list \<Rightarrow> bool" where
  "anyHit t p obss = (\<exists>obs \<in> set obss. \<not> o_passed obs \<and> hitsObstacle t p obs)"

definition deliverTo :: "Player \<Rightarrow> Decoration \<Rightarrow> bool" where
  "deliverTo p dec = (nearCabin p dec \<and> p_fishInventory p > 0)"

definition pickedUp :: "Player \<Rightarrow> PowerUp \<Rightarrow> bool" where
  "pickedUp p pu = (\<not> pu_collected pu \<and> inPickupRange p pu)"

text \<open>
  What the sections of the tick after the integration leave alone: the position along the
  slope, the death flag and the inventory snapshot; the horizontal speed is kept or set to 2.
\<close>

definition sameCourse :: "Player \<Rightarrow> Player \<Rightarrow> bool" where
  "sameCourse p p' =
     (p_x p' = p_x p \<and> p_isDead p' = p_isDead p \<and> p_fishInventory p' = p_fishInventory p
      \<and> (p_vx p' = p_vx p \<or> p_vx p' = 2))"

text \<open>The player with \<open>k\<close> added to the score accumulator.\<close>

definition withScore :: "int \<Rightarrow> Player \<Rightarrow> Player" where
  "withScore k p = p\<lparr>p_score := p_score p + k\<rparr>"

fun isScoreUpdate :: "event \<Rightarrow> bool" where
  "isScoreUpdate (OnScoreUpdate sc sp st d) = True"
| "isScoreUpdate e = False"

text \<open>The number of deliver events among the events.\<close>

definition deliveries :: "event list \<Rightarrow> nat" where
  "deliveries evs = length (filter (\<lambda>e. e = OnDeliverFish) evs)"

text \<open>The cleanup of \<open>updateTerrain\<close>, on the obstacles alone.\<close>

definition cleanupObstacles :: "real \<Rightarrow> Obstacle list \<Rightarrow> Obstacle list" where
  "cleanupObstacles playerX obss =
     (if obss \<noteq> [] \<and> o_x (hd obss) < playerX - real GAME_WIDTH then tl obss else obss)"

text \<open>The number of collect events among the events.\<close>

definition collects :: "event list \<Rightarrow> nat" where
  "collects evs = length (filter (\<lambda>e. e = OnCollectFish) evs)"

text \<open>
  The rotation as the specification normalizes it: the angle in \<open>(-\<pi>, \<pi>]\<close> that differs
  from the rotation by a whole number of turns, and the absolute angular difference from the
  ground angle taken with it. (The program's own normalization is \<open>normRot\<close>.)
\<close>

definition normalize_spec :: "real \<Rightarrow> real" where
  "normalize_spec rotation = rotation - 2 * pi * of_int \<lceil>(rotation - pi) / (2 * pi)\<rceil>"

definition angularDifference :: "real \<Rightarrow> real \<Rightarrow> real" where
  "angularDifference rotation groundAngle = \<bar>normalize_spec rotation - groundAngle\<bar>"

text \<open>
  What holds of the refs in every reachable state: the avalanche is at most 100 ahead of the
  player, and the player moves forward.
\<close>

definition chaseInv :: "Game \<Rightarrow> bool" where
  "chaseInv g = (avalancheX g \<le> p_x (player g) + 100 \<and> 0 < p_vx (player g))"






section \<open>States for the examples\<close>

text \<open>The refs right after \<open>initGame\<close>, when every call of \<open>Math.random\<close> returns 1/2.\<close>

definition startedGame :: Game where
  "startedGame = initGame (\<lambda>k. 1 / 2) initialGame"

text \<open>
  A rock on the terrain point at 120. In \<open>rockGame\<close> the player slides into it; in
  \<open>clearedGame\<close> the player is in the air above it and leaves it behind in the next tick.
\<close>

definition rockGame :: Game where
  "rockGame = startedGame\<lparr>
     player := (player startedGame)\<lparr>p_x := 110, p_y := 240, p_isGrounded := True\<rparr>,
     obstacles := [\<lparr>o_x = 120, o_y = 260, o_type = RockSmall, o_width = 40, o_height = 30,
                    o_passed = False\<rparr>]\<rparr>"

definition clearedGame :: Game where
  "clearedGame = startedGame\<lparr>
     player := (player startedGame)\<lparr>p_x := 130, p_y := 150\<rparr>,
     obstacles := [\<lparr>o_x = 120, o_y = 260, o_type = RockSmall, o_width = 40, o_height = 30,
                    o_passed = False\<rparr>]\<rparr>"

text \<open>
  One cooked fish in the inventory and two cabins, on neighbouring terrain points, both within
  reach of the player.
\<close>

definition twoCabinGame :: Game where
  "twoCabinGame = startedGame\<lparr>fishInventoryRef := 1,
     decorations :=
       [\<lparr>d_x = 140, d_y = 270, d_type = Cabin, d_width = 80, d_height = 80, d_delivered = False\<rparr>,
        \<lparr>d_x = 180, d_y = 285, d_type = Cabin, d_width = 80, d_height = 80, d_delivered = False\<rparr>]\<rparr>"

text \<open>
  A full inventory, an empty grill and a fish power-up within reach of the player; in
  \<open>rndHalf\<close> every call of \<open>Math.random\<close> in \<open>updateTerrain\<close> returns 1/2.
\<close>

definition fishGame :: Game where
  "fishGame = startedGame\<lparr>fishInventoryRef := 3,
     powerUps := [\<lparr>pu_x = 120, pu_y = 200, pu_type = Fish, pu_collected = False\<rparr>]\<rparr>"

definition fullSys :: Sys where
  "fullSys = \<lparr>app = (startGame initialApp)\<lparr>fishInventory := 3\<rparr>, game = fishGame\<rparr>"

definition rndHalf :: Rnd where
  "rndHalf = \<lparr>r_noise = 1 / 2, r_decoration = 1 / 2, r_cabin = 1 / 2, r_treeX = 1 / 2,
     r_treeType = 1 / 2, r_rock = 1 / 2, r_powerUp = 1 / 2, r_powerUpType = 1 / 2\<rparr>"

text \<open>An App with two fish in the inventory and all three grill slots cooking.\<close>

definition busyApp :: App where
  "busyApp = (startGame initialApp)\<lparr>fishInventory := 2,
     grillSlots := map (\<lambda>sl. sl\<lparr>g_isCooking := True\<rparr>) emptySlots\<rparr>"

text \<open>
  A level stretch of terrain and a player that comes down on it with rotation \<open>rot\<close> and
  \<open>n\<close> counted rotations; \<open>landed\<close> is the floor collision of that player.
\<close>

definition flatTerrain :: "Point list" where
  "flatTerrain = [\<lparr>pt_x = 0, pt_y = 300\<rparr>, \<lparr>pt_x = 40, pt_y = 300\<rparr>]"

definition landingPlayer :: "real \<Rightarrow> int \<Rightarrow> Player" where
  "landingPlayer rot n =
     (player startedGame)\<lparr>p_x := 20, p_y := 290, p_vy := 5, p_rotation := rot,
        p_backflipCount := n\<rparr>"

definition landed :: "real \<Rightarrow> int \<Rightarrow> event list \<times> Player \<times> real" where
  "landed rot n = floorCollision False (getGroundY flatTerrain 20) (landingPlayer rot n) 0"

text \<open>The program right after the first click on the start button.\<close>

definition startedSys :: Sys where
  "startedSys = \<lparr>app = startGame initialApp, game = startedGame\<rparr>"

text \<open>
  The click that leads there, and a frame whose tick reads -100 seconds from the clock:
  \<open>Date.now()\<close> is the wall clock, which can be set back behind \<open>startTimeRef\<close> during a run.
\<close>

definition startClick :: input where
  "startClick = ClickStart (\<lambda>k. 1 / 2)"

definition lateFrame :: input where
  "lateFrame = Frame (- 100) rndHalf"

text \<open>
  The refs after \<open>initGame\<close> with the avalanche 30 behind the player and 650 points on the
  accumulator: the next tick ends the run.
\<close>

definition caughtGame :: Game where
  "caughtGame = startedGame\<lparr>avalancheX := 70, player := (player startedGame)\<lparr>p_score := 650\<rparr>\<rparr>"

text \<open>
  A run that reaches a perfect fish: start, one fish collected onto the grill, 76 periods of
  the cooking interval. From there a tap collects it and a delivery hands it over.
\<close>

definition cookedRun :: "action list" where
  "cookedRun = Start # Callback OnCollectFish # replicate 76 CookTimer"

definition cookedApp :: App where
  "cookedApp =
     \<lparr>gameState = PLAYING, score = 0, highScore = 0, status = None, avalancheDist = 100,
      isMuted = False, fishInventory = 0,
      grillSlots =
        [\<lparr>g_id = ''1'', g_progress = 304 / 5, g_state = Perfect, g_isCooking = True\<rparr>,
         \<lparr>g_id = ''2'', g_progress = 0, g_state = Raw, g_isCooking = False\<rparr>,
         \<lparr>g_id = ''3'', g_progress = 0, g_state = Raw, g_isCooking = False\<rparr>]\<rparr>"

text \<open>A state of \<open>App\<close> with a fish in the first grill slot, for the examples.\<close>

definition grillDemo :: "int \<Rightarrow> FishCookState \<Rightarrow> bool \<Rightarrow> App" where
  "grillDemo n st cooking =
     \<lparr>gameState = PLAYING, score = 0, highScore = 0, status = None, avalancheDist = 100,
      isMuted = False, fishInventory = n,
      grillSlots =
        [\<lparr>g_id = ''1'', g_progress = 70, g_state = st, g_isCooking = cooking\<rparr>,
         \<lparr>g_id = ''2'', g_progress = 0, g_state = Raw, g_isCooking = False\<rparr>,
         \<lparr>g_id = ''3'', g_progress = 0, g_state = Raw, g_isCooking = False\<rparr>]\<rparr>"

section \<open>Basic facts about the tick\<close>

subsection \<open>The loops in closed form\<close>

lemma hitsObstacle_vx [simp]: "hitsObstacle t (p\<lparr>p_vx := v\<rparr>) obs = hitsObstacle t p obs"
  by (simp add: hitsObstacle_def)

lemma obstacleLoop_eq:
  "obstacleLoop t obss p shake =
     (replicate (length (filter (\<lambda>obs. \<not> o_passed obs \<and> hitsObstacle t p obs) obss))
        (Audio PlayCrash),
      map (markHit t p) obss,
      (if anyHit t p obss then p\<lparr>p_vx := 2\<rparr> else p),
      (if anyHit t p obss then 20 else shake))"
proof (induction obss arbitrary: p shake)
  case Nil
  then show ?case by (simp add: anyHit_def)
next
  case (Cons obs rest)
  show ?case
    by (simp add: Cons.IH markHit_def anyHit_def)
qed

lemma nearCabin_upd [simp]:
  "nearCabin (p\<lparr>p_flightTimer := f, p_score := sc\<rparr>) dec = nearCabin p dec"
  by (simp add: nearCabin_def)

lemma cabinLoop_eq:
  "cabinLoop decs p =
     (concat (map (\<lambda>dec. if deliverTo p dec then [OnDeliverFish, Audio PlayApplause] else [])
        decs),
      map (\<lambda>dec. if deliverTo p dec then dec\<lparr>d_delivered := True\<rparr> else dec) decs,
      (if \<exists>dec \<in> set decs. deliverTo p dec
       then p\<lparr>p_flightTimer := 80,
              p_score := p_score p + 500 * int (length (filter (deliverTo p) decs))\<rparr>
       else p))"
proof (induction decs arbitrary: p)
  case Nil
  then show ?case by simp
next
  case (Cons dec rest)
  have d: "deliverTo (p\<lparr>p_flightTimer := f, p_score := sc\<rparr>) = deliverTo p" for f sc
    by (rule ext) (simp add: deliverTo_def)
  show ?case
    by (simp add: Cons.IH d) (auto simp: deliverTo_def)
qed

lemma inPickupRange_upd [simp]:
  "inPickupRange (p\<lparr>p_invincibleTimer := f, p_vy := v\<rparr>) pu = inPickupRange p pu"
  by (simp add: inPickupRange_def)

lemma powerUpLoop_eq:
  "powerUpLoop pus p =
     (concat (map (\<lambda>pu. if pickedUp p pu
                         then (if pu_type pu = Fish then [OnCollectFish, Audio (PlayPowerUp Fish)]
                               else [Audio (PlayPowerUp Sunglasses)])
                         else []) pus),
      map (\<lambda>pu. if pickedUp p pu then pu\<lparr>pu_collected := True\<rparr> else pu) pus,
      (if \<exists>pu \<in> set pus. pickedUp p pu \<and> pu_type pu \<noteq> Fish
       then p\<lparr>p_invincibleTimer := 180, p_vy := - 10\<rparr> else p))"
proof (induction pus arbitrary: p)
  case Nil
  then show ?case by simp
next
  case (Cons pu rest)
  have d: "pickedUp (p\<lparr>p_invincibleTimer := f, p_vy := v\<rparr>) = pickedUp p" for f v
    by (rule ext) (simp add: pickedUp_def)
  show ?case
    by (simp add: Cons.IH d) (auto simp: pickedUp_def)
qed

subsection \<open>The two paths through the tick\<close>

lemma updatePhysics_early:
  assumes "returnsEarly g"
  shows "updatePhysics e gs g =
     ([], g\<lparr>player := (integrate g)\<lparr>p_y := collisionThreshold (integrate g)
                (fst (getGroundY (terrain g) (p_x (integrate g)))), p_vy := 0\<rparr>\<rparr>)"
  using assms by (simp add: updatePhysics_def returnsEarly_def Let_def)

lemma updatePhysics_normalE:
  assumes "\<not> returnsEarly g" and "updatePhysics e gs g = (evs, g')"
  obtains ev1 p1 shake1 ev2 obss p2 shake2 ev3 decs p3 ev4 pus p4 ev5 avX p5 where
    "floorCollision (isHolding g) (getGroundY (terrain g) (p_x (integrate g))) (integrate g)
       (cameraShake g) = (ev1, p1, shake1)"
    "obstacleCollision (terrain g) (obstacles g) p1 shake1 = (ev2, obss, p2, shake2)"
    "cabinLoop (decorations g) p2 = (ev3, decs, p3)"
    "powerUpLoop (powerUps g) p3 = (ev4, pus, p4)"
    "avalancheLogic e gs (avalancheX g) p4 = (ev5, avX, p5)"
    "evs = ev1 @ ev2 @ ev3 @ ev4 @ ev5 @ hudUpdate avX p5"
    "g' = g\<lparr>player := p5, obstacles := obss, decorations := decs, powerUps := pus,
             cameraShake := shake2, avalancheX := avX\<rparr>"
  using assms
  by (auto simp: updatePhysics_def returnsEarly_def Let_def split: prod.splits)

subsection \<open>What each section of the tick leaves alone\<close>

lemma sameCourse_refl [simp]: "sameCourse p p"
  by (simp add: sameCourse_def)

lemma sameCourse_trans: "sameCourse p q \<Longrightarrow> sameCourse q r \<Longrightarrow> sameCourse p r"
  by (auto simp: sameCourse_def)

lemma landing_course:
  "landing a p sh = (ev, p1, sh1) \<Longrightarrow>
     sameCourse p p1 \<and> p_invincibleTimer p1 = p_invincibleTimer p
     \<and> p_flightTimer p1 = p_flightTimer p"
  by (auto simp: landing_def Let_def sameCourse_def split: if_splits)

lemma airborne_course:
  "sameCourse p (airborne h gy p) \<and> p_invincibleTimer (airborne h gy p) = p_invincibleTimer p
     \<and> p_flightTimer (airborne h gy p) = p_flightTimer p
     \<and> p_vx (airborne h gy p) = p_vx p"
  by (simp add: airborne_def Let_def sameCourse_def)

lemma floorCollision_course:
  assumes "floorCollision h gr p sh = (ev, p1, sh1)"
  shows "sameCourse p p1 \<and> p_invincibleTimer p1 = p_invincibleTimer p
     \<and> p_flightTimer p1 = p_flightTimer p"
proof (cases "touchesFloor p (fst gr)")
  case True
  obtain ev0 q sh0 where
    l: "(if \<not> p_isGrounded p then landing (snd gr) p sh else ([], p, sh)) = (ev0, q, sh0)"
    by (cases "(if \<not> p_isGrounded p then landing (snd gr) p sh else ([], p, sh))") auto
  then have "sameCourse p q \<and> p_invincibleTimer q = p_invincibleTimer p
     \<and> p_flightTimer q = p_flightTimer p"
    using landing_course by (auto split: if_splits)
  moreover have "p1 = q\<lparr>p_y := collisionThreshold p (fst gr), p_vy := 0, p_isGrounded := True,
                   p_backflipCount := 0, p_rotation := snd gr\<rparr>"
    using assms True l by (simp add: floorCollision_def Let_def)
  ultimately show ?thesis by (simp add: sameCourse_def)
next
  case False
  with assms have "p1 = airborne h (fst gr) p" by (simp add: floorCollision_def Let_def)
  with airborne_course show ?thesis by simp
qed

lemma obstacleCollision_course:
  assumes "obstacleCollision t obss p sh = (ev, obss', p1, sh1)"
  shows "sameCourse p p1 \<and> p_invincibleTimer p1 = p_invincibleTimer p
     \<and> p_flightTimer p1 = p_flightTimer p"
  using assms
  by (auto simp: obstacleCollision_def obstacleLoop_eq sameCourse_def split: if_splits)

lemma cabinLoop_course:
  assumes "cabinLoop decs p = (ev, decs', p1)"
  shows "sameCourse p p1 \<and> p_invincibleTimer p1 = p_invincibleTimer p \<and> p_vx p1 = p_vx p"
  using assms by (auto simp: cabinLoop_eq sameCourse_def split: if_splits)

lemma powerUpLoop_course:
  assumes "powerUpLoop pus p = (ev, pus', p1)"
  shows "sameCourse p p1 \<and> p_flightTimer p1 = p_flightTimer p \<and> p_vx p1 = p_vx p"
  using assms by (auto simp: powerUpLoop_eq sameCourse_def split: if_splits)

lemma avalancheLogic_eq:
  "avalancheLogic e gs avX p =
     (let av = min (avX + avalancheAdvance e p) (p_x p + 100)
      in if av > p_x p - 30
         then ((if gs = PLAYING then [OnGameOver \<lfloor>p_x p / 10\<rfloor>] else []), av,
               p\<lparr>p_isDead := True\<rparr>)
         else ([], av, p))"
  by (simp add: avalancheLogic_def Let_def min_def)

text \<open>The definitions to unfold when a tick is evaluated on a concrete state.\<close>

lemmas tick_defs =
  updatePhysics_def integrate_def tickTimers_def targetSpeed_def gravityAssist_def
  movePlayer_def asymmetricGravity_def flightHover_def touchesFloor_def collisionThreshold_def
  floorCollision_def airborne_def obstacleCollision_def avalancheLogic_def avalancheAdvance_def
  avTargetSpeed_def hudUpdate_def hudStatus_def atan2_def returnsEarly_def
  GRAVITY_def FRICTION_def MAX_SPEED_def BASE_SPEED_def BOOST_SPEED_def FLIGHT_SPEED_def
  ROTATION_SPEED_def JUMP_FORCE_def SLOPE_DROP_def GAME_WIDTH_def TERRAIN_SEGMENT_WIDTH_def
  Let_def

lemmas start_defs = startedGame_def initGame_def initialGame_def

subsection \<open>The score accumulator and the reported scores\<close>

lemma tickTimers_withScore: "tickTimers (withScore k p) = withScore k (tickTimers p)"
  by (simp add: tickTimers_def withScore_def Let_def)

lemma gravityAssist_withScore: "gravityAssist (withScore k p) = withScore k (gravityAssist p)"
  by (simp add: gravityAssist_def targetSpeed_def withScore_def)

lemma movePlayer_withScore: "movePlayer (withScore k p) = withScore k (movePlayer p)"
  by (simp add: movePlayer_def withScore_def)

lemma asymmetricGravity_withScore: "asymmetricGravity (withScore k p) = withScore k (asymmetricGravity p)"
  by (simp add: asymmetricGravity_def withScore_def Let_def)

lemma integrate_withScore:
  "integrate (g\<lparr>player := withScore k (player g)\<rparr>) = withScore k (integrate g)"
proof -
  have "(withScore k (player g))\<lparr>p_fishInventory := n\<rparr> = withScore k ((player g)\<lparr>p_fishInventory := n\<rparr>)" for n
    by (simp add: withScore_def)
  then show ?thesis
  by (simp add: integrate_def tickTimers_withScore gravityAssist_withScore movePlayer_withScore asymmetricGravity_withScore)
qed

lemma withScore_fields [simp]:
  "p_x (withScore k p) = p_x p" "p_y (withScore k p) = p_y p" "p_vx (withScore k p) = p_vx p"
  "p_vy (withScore k p) = p_vy p" "p_flightTimer (withScore k p) = p_flightTimer p"
  "p_invincibleTimer (withScore k p) = p_invincibleTimer p"
  "p_boostTimer (withScore k p) = p_boostTimer p"
  "p_isGrounded (withScore k p) = p_isGrounded p"
  "p_fishInventory (withScore k p) = p_fishInventory p"
  "p_score (withScore k p) = p_score p + k"
  by (simp_all add: withScore_def)

lemma landing_withScore:
  "landing a (withScore k p) sh = (case landing a p sh of (ev, p1, sh1) \<Rightarrow> (ev, withScore k p1, sh1))"
  by (simp add: landing_def withScore_def Let_def)

lemma airborne_withScore: "airborne h gy (withScore k p) = withScore k (airborne h gy p)"
  by (simp add: airborne_def Let_def withScore_def)

lemma floorCollision_withScore:
  "floorCollision h gr (withScore k p) sh =
     (case floorCollision h gr p sh of (ev, p1, sh1) \<Rightarrow> (ev, withScore k p1, sh1))"
proof (cases "touchesFloor p (fst gr)")
  case True
  then have t: "touchesFloor (withScore k p) (fst gr)"
    by (simp add: touchesFloor_def collisionThreshold_def)
  obtain ev q sh0 where l: "landing (snd gr) p sh = (ev, q, sh0)"
    by (cases "landing (snd gr) p sh") auto
  then have l2: "landing (snd gr) (withScore k p) sh = (ev, withScore k q, sh0)"
    by (simp add: landing_withScore)
  show ?thesis
    using True t l l2
    by (simp add: floorCollision_def Let_def collisionThreshold_def) (simp add: withScore_def)
next
  case False
  then have t: "\<not> touchesFloor (withScore k p) (fst gr)"
    by (simp add: touchesFloor_def collisionThreshold_def)
  show ?thesis
    using False t by (simp add: floorCollision_def Let_def airborne_withScore)
qed

lemma obstacleCollision_withScore:
  "obstacleCollision t obss (withScore k p) sh =
     (case obstacleCollision t obss p sh of (ev, obss', p1, sh1) \<Rightarrow> (ev, obss', withScore k p1, sh1))"
  by (simp add: obstacleCollision_def obstacleLoop_eq anyHit_def hitsObstacle_def markHit_def)
     (auto simp: withScore_def)

lemma cabinLoop_withScore:
  "cabinLoop decs (withScore k p) =
     (case cabinLoop decs p of (ev, decs', p1) \<Rightarrow> (ev, decs', withScore k p1))"
proof -
  have "deliverTo (withScore k p) = deliverTo p"
    by (rule ext) (simp add: deliverTo_def nearCabin_def)
  then show ?thesis
    by (simp add: cabinLoop_eq) (auto simp: withScore_def)
qed

lemma powerUpLoop_withScore:
  "powerUpLoop pus (withScore k p) =
     (case powerUpLoop pus p of (ev, pus', p1) \<Rightarrow> (ev, pus', withScore k p1))"
proof -
  have "pickedUp (withScore k p) = pickedUp p"
    by (rule ext) (simp add: pickedUp_def inPickupRange_def)
  then show ?thesis
    by (simp add: powerUpLoop_eq) (auto simp: withScore_def)
qed

lemma avalancheLogic_withScore:
  "avalancheLogic e gs avX (withScore k p) =
     (case avalancheLogic e gs avX p of (ev, av, p1) \<Rightarrow> (ev, av, withScore k p1))"
  by (simp add: avalancheLogic_def avalancheAdvance_def Let_def) (simp add: withScore_def)

lemma hudUpdate_withScore: "hudUpdate avX (withScore k p) = hudUpdate avX p"
  by (simp add: hudUpdate_def hudStatus_def)

lemma updatePhysics_normalI:
  assumes "\<not> returnsEarly g"
    and "floorCollision (isHolding g) (getGroundY (terrain g) (p_x (integrate g))) (integrate g)
       (cameraShake g) = (ev1, p1, shake1)"
    and "obstacleCollision (terrain g) (obstacles g) p1 shake1 = (ev2, obss, p2, shake2)"
    and "cabinLoop (decorations g) p2 = (ev3, decs, p3)"
    and "powerUpLoop (powerUps g) p3 = (ev4, pus, p4)"
    and "avalancheLogic e gs (avalancheX g) p4 = (ev5, avX, p5)"
  shows "updatePhysics e gs g =
     (ev1 @ ev2 @ ev3 @ ev4 @ ev5 @ hudUpdate avX p5,
      g\<lparr>player := p5, obstacles := obss, decorations := decs, powerUps := pus,
             cameraShake := shake2, avalancheX := avX\<rparr>)"
  using assms by (simp add: updatePhysics_def returnsEarly_def Let_def)

lemma returnsEarly_withScore:
  "returnsEarly (g\<lparr>player := withScore k (player g)\<rparr>) = returnsEarly g"
  by (simp add: returnsEarly_def integrate_withScore flightHover_def touchesFloor_def
      collisionThreshold_def)

lemma updatePhysics_withScore:
  assumes "updatePhysics e gs g = (evs, g')"
  shows "updatePhysics e gs (g\<lparr>player := withScore k (player g)\<rparr>) =
     (evs, g'\<lparr>player := withScore k (player g')\<rparr>)"
proof (cases "returnsEarly g")
  case True
  then have "returnsEarly (g\<lparr>player := withScore k (player g)\<rparr>)"
    by (simp add: returnsEarly_withScore)
  from updatePhysics_early [OF this] updatePhysics_early [OF True, of e gs] assms
  show ?thesis
    by (auto simp: integrate_withScore collisionThreshold_def) (simp_all add: withScore_def)
next
  case False
  let ?g2 = "g\<lparr>player := withScore k (player g)\<rparr>"
  from False assms obtain ev1 p1 shake1 ev2 obss p2 shake2 ev3 decs p3 ev4 pus p4 ev5 avX p5
    where st:
    "floorCollision (isHolding g) (getGroundY (terrain g) (p_x (integrate g))) (integrate g)
       (cameraShake g) = (ev1, p1, shake1)"
    "obstacleCollision (terrain g) (obstacles g) p1 shake1 = (ev2, obss, p2, shake2)"
    "cabinLoop (decorations g) p2 = (ev3, decs, p3)"
    "powerUpLoop (powerUps g) p3 = (ev4, pus, p4)"
    "avalancheLogic e gs (avalancheX g) p4 = (ev5, avX, p5)"
    and res: "evs = ev1 @ ev2 @ ev3 @ ev4 @ ev5 @ hudUpdate avX p5"
    "g' = g\<lparr>player := p5, obstacles := obss, decorations := decs, powerUps := pus,
             cameraShake := shake2, avalancheX := avX\<rparr>"
    by (rule updatePhysics_normalE)
  have ne: "\<not> returnsEarly ?g2" using False by (simp add: returnsEarly_withScore)
  have "updatePhysics e gs ?g2 =
     (ev1 @ ev2 @ ev3 @ ev4 @ ev5 @ hudUpdate avX (withScore k p5),
      ?g2\<lparr>player := withScore k p5, obstacles := obss, decorations := decs, powerUps := pus,
             cameraShake := shake2, avalancheX := avX\<rparr>)"
  proof (rule updatePhysics_normalI [OF ne])
    show "floorCollision (isHolding ?g2) (getGroundY (terrain ?g2) (p_x (integrate ?g2)))
        (integrate ?g2) (cameraShake ?g2) = (ev1, withScore k p1, shake1)"
      using st(1) by (simp add: integrate_withScore floorCollision_withScore)
    show "obstacleCollision (terrain ?g2) (obstacles ?g2) (withScore k p1) shake1
        = (ev2, obss, withScore k p2, shake2)"
      using st(2) by (simp add: obstacleCollision_withScore)
    show "cabinLoop (decorations ?g2) (withScore k p2) = (ev3, decs, withScore k p3)"
      using st(3) by (simp add: cabinLoop_withScore)
    show "powerUpLoop (powerUps ?g2) (withScore k p3) = (ev4, pus, withScore k p4)"
      using st(4) by (simp add: powerUpLoop_withScore)
    show "avalancheLogic e gs (avalancheX ?g2) (withScore k p4) = (ev5, avX, withScore k p5)"
      using st(5) by (simp add: avalancheLogic_withScore)
  qed
  with res show ?thesis by (simp add: hudUpdate_withScore)
qed


lemma tickTimers_keeps [simp]:
  "p_x (tickTimers p) = p_x p" "p_y (tickTimers p) = p_y p" "p_vx (tickTimers p) = p_vx p"
  "p_vy (tickTimers p) = p_vy p" "p_rotation (tickTimers p) = p_rotation p"
  "p_isGrounded (tickTimers p) = p_isGrounded p" "p_isDead (tickTimers p) = p_isDead p"
  "p_score (tickTimers p) = p_score p" "p_backflipCount (tickTimers p) = p_backflipCount p"
  "p_totalBackflips (tickTimers p) = p_totalBackflips p"
  "p_fishInventory (tickTimers p) = p_fishInventory p"
  by (simp_all add: tickTimers_def Let_def)

lemma gravityAssist_keeps [simp]:
  "p_x (gravityAssist p) = p_x p" "p_y (gravityAssist p) = p_y p"
  "p_vy (gravityAssist p) = p_vy p" "p_rotation (gravityAssist p) = p_rotation p"
  "p_isGrounded (gravityAssist p) = p_isGrounded p" "p_isDead (gravityAssist p) = p_isDead p"
  "p_score (gravityAssist p) = p_score p" "p_backflipCount (gravityAssist p) = p_backflipCount p"
  "p_totalBackflips (gravityAssist p) = p_totalBackflips p"
  "p_fishInventory (gravityAssist p) = p_fishInventory p"
  "p_invincibleTimer (gravityAssist p) = p_invincibleTimer p"
  "p_flightTimer (gravityAssist p) = p_flightTimer p"
  "p_boostTimer (gravityAssist p) = p_boostTimer p"
  by (simp_all add: gravityAssist_def)

lemma movePlayer_keeps [simp]:
  "p_x (movePlayer p) = p_x p + p_vx p" "p_y (movePlayer p) = p_y p + p_vy p"
  "p_vx (movePlayer p) = p_vx p"
  "p_vy (movePlayer p) = p_vy p" "p_rotation (movePlayer p) = p_rotation p"
  "p_isGrounded (movePlayer p) = p_isGrounded p" "p_isDead (movePlayer p) = p_isDead p"
  "p_score (movePlayer p) = p_score p" "p_backflipCount (movePlayer p) = p_backflipCount p"
  "p_totalBackflips (movePlayer p) = p_totalBackflips p"
  "p_fishInventory (movePlayer p) = p_fishInventory p"
  "p_invincibleTimer (movePlayer p) = p_invincibleTimer p"
  "p_flightTimer (movePlayer p) = p_flightTimer p"
  "p_boostTimer (movePlayer p) = p_boostTimer p"
  by (simp_all add: movePlayer_def)

lemma asymmetricGravity_keeps [simp]:
  "p_x (asymmetricGravity p) = p_x p" "p_y (asymmetricGravity p) = p_y p"
  "p_vx (asymmetricGravity p) = p_vx p" "p_rotation (asymmetricGravity p) = p_rotation p"
  "p_isGrounded (asymmetricGravity p) = p_isGrounded p"
  "p_isDead (asymmetricGravity p) = p_isDead p"
  "p_score (asymmetricGravity p) = p_score p"
  "p_backflipCount (asymmetricGravity p) = p_backflipCount p"
  "p_totalBackflips (asymmetricGravity p) = p_totalBackflips p"
  "p_fishInventory (asymmetricGravity p) = p_fishInventory p"
  "p_invincibleTimer (asymmetricGravity p) = p_invincibleTimer p"
  "p_flightTimer (asymmetricGravity p) = p_flightTimer p"
  "p_boostTimer (asymmetricGravity p) = p_boostTimer p"
  by (simp_all add: asymmetricGravity_def Let_def)

lemma deliveries_append [simp]: "deliveries (xs @ ys) = deliveries xs + deliveries ys"
  by (simp add: deliveries_def)

lemma deliveries_Nil [simp]: "deliveries [] = 0"
  by (simp add: deliveries_def)

lemma landing_score:
  assumes "landing a p sh = (ev, p1, sh1)"
  shows "deliveries ev = 0 \<and> filter isScoreUpdate ev = [] \<and> filter isGameOver ev = []
       \<and> (\<exists>b \<in> {0, 150, 300}. p_score p1 = p_score p + b * p_backflipCount p)"
  using assms by (auto simp: landing_def Let_def deliveries_def split: if_splits)

lemma floorCollision_score:
  assumes "floorCollision h gr p sh = (ev, p1, sh1)"
  shows "deliveries ev = 0 \<and> filter isScoreUpdate ev = [] \<and> filter isGameOver ev = []
       \<and> (\<exists>b \<in> {0, 150, 300}. p_score p1 = p_score p + b * p_backflipCount p)"
proof (cases "touchesFloor p (fst gr) \<and> \<not> p_isGrounded p")
  case True
  obtain ev0 q sh0 where l: "landing (snd gr) p sh = (ev0, q, sh0)"
    by (cases "landing (snd gr) p sh") auto
  with assms True have "ev = ev0" and "p_score p1 = p_score q"
    by (auto simp: floorCollision_def Let_def)
  with landing_score [OF l] show ?thesis by simp
next
  case False
  with assms have "ev = []" and "p_score p1 = p_score p"
    by (auto simp: floorCollision_def Let_def airborne_def split: if_splits)
  then show ?thesis by simp
qed

lemma obstacleCollision_score:
  assumes "obstacleCollision t obss p sh = (ev, obss', p1, sh1)"
  shows "deliveries ev = 0 \<and> filter isScoreUpdate ev = [] \<and> filter isGameOver ev = []
       \<and> p_score p1 = p_score p"
  using assms
  by (auto simp: obstacleCollision_def obstacleLoop_eq deliveries_def split: if_splits)

lemma cabin_events:
  "deliveries (concat (map (\<lambda>dec. if P dec then [OnDeliverFish, Audio PlayApplause] else []) decs))
     = length (filter P decs)
   \<and> filter isScoreUpdate (concat (map (\<lambda>dec. if P dec then [OnDeliverFish, Audio PlayApplause] else []) decs)) = []
   \<and> filter isGameOver (concat (map (\<lambda>dec. if P dec then [OnDeliverFish, Audio PlayApplause] else []) decs)) = []"
  by (induction decs) (simp_all add: deliveries_def)

lemma cabinLoop_score:
  assumes "cabinLoop decs p = (ev, decs', p1)"
  shows "filter isScoreUpdate ev = [] \<and> filter isGameOver ev = []
       \<and> p_score p1 = p_score p + 500 * int (deliveries ev)"
proof -
  from assms have ev: "ev = concat (map (\<lambda>dec. if deliverTo p dec then [OnDeliverFish, Audio PlayApplause] else []) decs)"
    and p1: "p1 = (if \<exists>dec \<in> set decs. deliverTo p dec
       then p\<lparr>p_flightTimer := 80,
              p_score := p_score p + 500 * int (length (filter (deliverTo p) decs))\<rparr>
       else p)"
    by (simp_all add: cabinLoop_eq)
  have "(\<not> (\<exists>dec \<in> set decs. deliverTo p dec)) \<Longrightarrow> filter (deliverTo p) decs = []"
    by (simp add: filter_empty_conv)
  with p1 have "p_score p1 = p_score p + 500 * int (length (filter (deliverTo p) decs))"
    by (cases "\<exists>dec \<in> set decs. deliverTo p dec") simp_all
  with cabin_events [of "deliverTo p" decs] ev show ?thesis by simp
qed

lemma powerUp_events:
  "deliveries (concat (map (\<lambda>pu. if P pu
                         then (if Q pu then [OnCollectFish, Audio (PlayPowerUp Fish)]
                               else [Audio (PlayPowerUp Sunglasses)])
                         else []) pus)) = 0
   \<and> filter isScoreUpdate (concat (map (\<lambda>pu. if P pu
                         then (if Q pu then [OnCollectFish, Audio (PlayPowerUp Fish)]
                               else [Audio (PlayPowerUp Sunglasses)])
                         else []) pus)) = []
   \<and> filter isGameOver (concat (map (\<lambda>pu. if P pu
                         then (if Q pu then [OnCollectFish, Audio (PlayPowerUp Fish)]
                               else [Audio (PlayPowerUp Sunglasses)])
                         else []) pus)) = []"
  by (induction pus) (simp_all add: deliveries_def)

lemma powerUpLoop_score:
  assumes "powerUpLoop pus p = (ev, pus', p1)"
  shows "deliveries ev = 0 \<and> filter isScoreUpdate ev = [] \<and> filter isGameOver ev = []
       \<and> p_score p1 = p_score p"
proof -
  from assms have "p_score p1 = p_score p"
    by (auto simp: powerUpLoop_eq split: if_splits)
  moreover from assms have "ev = concat (map (\<lambda>pu. if pickedUp p pu
                         then (if pu_type pu = Fish then [OnCollectFish, Audio (PlayPowerUp Fish)]
                               else [Audio (PlayPowerUp Sunglasses)])
                         else []) pus)"
    by (simp add: powerUpLoop_eq)
  ultimately show ?thesis using powerUp_events [of "pickedUp p" "\<lambda>pu. pu_type pu = Fish" pus]
    by simp
qed

lemma avalancheLogic_score:
  assumes "avalancheLogic e gs avX p = (ev, av, p1)"
  shows "deliveries ev = 0 \<and> filter isScoreUpdate ev = [] \<and> p_score p1 = p_score p
       \<and> p_x p1 = p_x p \<and> (\<forall>n. OnGameOver n \<in> set ev \<longrightarrow> n = \<lfloor>p_x p / 10\<rfloor>)"
  using assms by (auto simp: avalancheLogic_eq Let_def deliveries_def split: if_splits)

lemma hudUpdate_score:
  "deliveries (hudUpdate avX p) = 0 \<and> filter isGameOver (hudUpdate avX p) = []
     \<and> length (filter isScoreUpdate (hudUpdate avX p)) = 1
     \<and> (\<forall>sc sp st d. OnScoreUpdate sc sp st d \<in> set (hudUpdate avX p) \<longrightarrow> sc = \<lfloor>p_x p / 10\<rfloor>)"
  by (simp add: hudUpdate_def deliveries_def Let_def)

lemma filter_empty_mem: "filter P xs = [] \<Longrightarrow> x \<in> set xs \<Longrightarrow> \<not> P x"
  by (simp add: filter_empty_conv)

lemma updatePhysics_reports:
  assumes "updatePhysics e gs g = (evs, g')"
  shows "(\<forall>sc sp st d. OnScoreUpdate sc sp st d \<in> set evs \<longrightarrow> sc = \<lfloor>p_x (player g') / 10\<rfloor>)
       \<and> (\<forall>n. OnGameOver n \<in> set evs \<longrightarrow> n = \<lfloor>p_x (player g') / 10\<rfloor>)
       \<and> (\<not> returnsEarly g \<longrightarrow> length (filter isScoreUpdate evs) = 1)
       \<and> (\<exists>b \<in> {0, 150, 300}. p_score (player g') =
             p_score (player g) + b * p_backflipCount (player g) + 500 * int (deliveries evs))"
proof (cases "returnsEarly g")
  case True
  from updatePhysics_early [OF True, of e gs] assms
  have "evs = []" and "p_score (player g') = p_score (integrate g)" by auto
  moreover have "p_score (integrate g) = p_score (player g)"
    by (simp add: integrate_def)
  ultimately show ?thesis using True by simp
next
  case False
  from False assms obtain ev1 p1 shake1 ev2 obss p2 shake2 ev3 decs p3 ev4 pus p4 ev5 avX p5
    where st:
    "floorCollision (isHolding g) (getGroundY (terrain g) (p_x (integrate g))) (integrate g)
       (cameraShake g) = (ev1, p1, shake1)"
    "obstacleCollision (terrain g) (obstacles g) p1 shake1 = (ev2, obss, p2, shake2)"
    "cabinLoop (decorations g) p2 = (ev3, decs, p3)"
    "powerUpLoop (powerUps g) p3 = (ev4, pus, p4)"
    "avalancheLogic e gs (avalancheX g) p4 = (ev5, avX, p5)"
    and res: "evs = ev1 @ ev2 @ ev3 @ ev4 @ ev5 @ hudUpdate avX p5"
    "g' = g\<lparr>player := p5, obstacles := obss, decorations := decs, powerUps := pus,
             cameraShake := shake2, avalancheX := avX\<rparr>"
    by (rule updatePhysics_normalE)
  note f = floorCollision_score [OF st(1)] and ob = obstacleCollision_score [OF st(2)]
    and c = cabinLoop_score [OF st(3)] and pw = powerUpLoop_score [OF st(4)]
    and a = avalancheLogic_score [OF st(5)] and h = hudUpdate_score [of avX p5]
  have pl: "player g' = p5" using res(2) by simp
  have x5: "p_x p5 = p_x p4" using a by simp
  have su: "sc = \<lfloor>p_x p5 / 10\<rfloor>" if "OnScoreUpdate sc sp st d \<in> set evs" for sc sp st d
  proof -
    have no: "OnScoreUpdate sc sp st d \<notin> set ev" if "filter isScoreUpdate ev = []" for ev
      using that by (auto simp: filter_empty_conv)
    from that have "OnScoreUpdate sc sp st d \<in> set ev1 \<or> OnScoreUpdate sc sp st d \<in> set ev2
        \<or> OnScoreUpdate sc sp st d \<in> set ev3 \<or> OnScoreUpdate sc sp st d \<in> set ev4
        \<or> OnScoreUpdate sc sp st d \<in> set ev5 \<or> OnScoreUpdate sc sp st d \<in> set (hudUpdate avX p5)"
      unfolding res(1) by simp
    with no f ob c pw a have "OnScoreUpdate sc sp st d \<in> set (hudUpdate avX p5)"
      by blast
    with h show ?thesis by blast
  qed
  have go: "n = \<lfloor>p_x p5 / 10\<rfloor>" if "OnGameOver n \<in> set evs" for n
  proof -
    have no: "OnGameOver n \<notin> set ev" if "filter isGameOver ev = []" for ev
      using that by (auto simp: filter_empty_conv)
    from that have "OnGameOver n \<in> set ev1 \<or> OnGameOver n \<in> set ev2
        \<or> OnGameOver n \<in> set ev3 \<or> OnGameOver n \<in> set ev4
        \<or> OnGameOver n \<in> set ev5 \<or> OnGameOver n \<in> set (hudUpdate avX p5)"
      unfolding res(1) by simp
    with no f ob c pw h have "OnGameOver n \<in> set ev5"
      by blast
    with a x5 show ?thesis by simp
  qed
  have cnt: "length (filter isScoreUpdate evs) = 1"
    unfolding res(1) using f ob c pw a h by simp
  have dl: "deliveries evs = deliveries ev3"
    unfolding res(1) using f ob pw a h by simp
  have bf: "p_backflipCount (integrate g) = p_backflipCount (player g)"
    and sc0: "p_score (integrate g) = p_score (player g)"
    by (simp_all add: integrate_def)
  from f obtain b where b: "b \<in> {0, 150, 300}"
    "p_score p1 = p_score (integrate g) + b * p_backflipCount (integrate g)" by blast
  have "p_score p5 = p_score (player g) + b * p_backflipCount (player g) + 500 * int (deliveries evs)"
    using b(2) ob c pw a dl bf sc0 by simp
  with b(1) pl su go cnt show ?thesis by blast
qed


section \<open>Tapping a grill slot\<close>

text \<open>
  C7. Tapping slot \<open>index\<close> (one of the existing slots) changes nothing unless the slot is
  cooking. A cooking slot in state perfect, with fewer than 3 fish in the inventory, is
  collected: the inventory grows by 1, the tapped slot becomes empty (progress 0, raw, not
  cooking) and every other slot is left as it was. A cooking slot in state raw, and a
  cooking slot in state perfect when the inventory is 3, change neither inventory nor slots,
  so the perfect slot is still cooking and perfect.
\<close>

theorem handleSlotTap_cases:
  assumes "index < length (grillSlots a)"
  shows "(\<not> g_isCooking (grillSlots a ! index) \<longrightarrow> handleSlotTap index a = Some a)
       \<and> (g_isCooking (grillSlots a ! index) \<and> g_state (grillSlots a ! index) = Perfect
            \<and> fishInventory a < 3 \<longrightarrow>
           (\<exists>a'. handleSlotTap index a = Some a'
              \<and> fishInventory a' = fishInventory a + 1
              \<and> length (grillSlots a') = length (grillSlots a)
              \<and> g_progress (grillSlots a' ! index) = 0
              \<and> g_state (grillSlots a' ! index) = Raw
              \<and> \<not> g_isCooking (grillSlots a' ! index)
              \<and> g_id (grillSlots a' ! index) = g_id (grillSlots a ! index)
              \<and> (\<forall>j. j \<noteq> index \<longrightarrow> grillSlots a' ! j = grillSlots a ! j)))
       \<and> (g_isCooking (grillSlots a ! index) \<and> g_state (grillSlots a ! index) = Raw \<longrightarrow>
           handleSlotTap index a = Some a)
       \<and> (g_isCooking (grillSlots a ! index) \<and> g_state (grillSlots a ! index) = Perfect
            \<and> fishInventory a = 3 \<longrightarrow>
           handleSlotTap index a = Some a
           \<and> g_isCooking (grillSlots a ! index) \<and> g_state (grillSlots a ! index) = Perfect)"
  using assms by (simp add: handleSlotTap_def Let_def)

theorem handleSlotTap_cases_witness:
  "handleSlotTap 1 (grillDemo 2 Perfect True) = Some (grillDemo 2 Perfect True)
   \<and> (\<exists>a'. handleSlotTap 0 (grillDemo 2 Perfect True) = Some a'
         \<and> fishInventory a' = 3
         \<and> grillSlots a' = emptySlots)
   \<and> handleSlotTap 0 (grillDemo 2 Raw True) = Some (grillDemo 2 Raw True)
   \<and> handleSlotTap 0 (grillDemo 3 Perfect True) = Some (grillDemo 3 Perfect True)
   \<and> g_isCooking (grillSlots (grillDemo 3 Perfect True) ! 0)
   \<and> g_state (grillSlots (grillDemo 3 Perfect True) ! 0) = Perfect"
  using handleSlotTap_cases [of 1 "grillDemo 2 Perfect True"]
        handleSlotTap_cases [of 0 "grillDemo 2 Perfect True"]
        handleSlotTap_cases [of 0 "grillDemo 2 Raw True"]
        handleSlotTap_cases [of 0 "grillDemo 3 Perfect True"]
  by (simp add: grillDemo_def emptySlots_def handleSlotTap_def)

section \<open>The inventory of cooked fish\<close>

lemma handleSlotTap_inventory:
  assumes "handleSlotTap i a = Some a'"
  shows "fishInventory a' = fishInventory a
       \<or> (i < length (grillSlots a) \<and> g_isCooking (grillSlots a ! i)
            \<and> g_state (grillSlots a ! i) = Perfect \<and> fishInventory a < 3
            \<and> fishInventory a' = fishInventory a + 1)"
  using assms by (auto simp: handleSlotTap_def Let_def split: if_splits)

lemma appCallback_inventory:
  "fishInventory (appCallback e a) =
     (if e = OnDeliverFish then max 0 (fishInventory a - 1) else fishInventory a)"
  by (cases e)
     (simp_all add: handleGameOver_def handleScoreUpdate_def handleCollectFish_def
        handleDeliverFish_def Let_def split: option.splits)

lemma appStep_inventory:
  assumes "appStep act a = Some a'"
  shows "fishInventory a' = fishInventory a
       \<or> (act = Start \<and> gameState a \<noteq> PLAYING \<and> fishInventory a' = 0)
       \<or> (\<exists>i. act = Tap i \<and> i < length (grillSlots a) \<and> g_isCooking (grillSlots a ! i)
            \<and> g_state (grillSlots a ! i) = Perfect \<and> fishInventory a < 3
            \<and> fishInventory a' = fishInventory a + 1)
       \<or> (act = Callback OnDeliverFish \<and> fishInventory a' = max 0 (fishInventory a - 1))"
proof (cases act)
  case Start
  with assms show ?thesis by (auto simp: startGame_def split: if_splits)
next
  case CookTimer
  with assms show ?thesis by (auto simp: cookTick_def)
next
  case (Tap i)
  with assms have "handleSlotTap i a = Some a'" by (simp split: if_splits)
  from handleSlotTap_inventory [OF this] Tap show ?thesis by blast
next
  case ToggleAudio
  with assms show ?thesis by (auto simp: toggleAudio_def)
next
  case (Callback e)
  with assms have "a' = appCallback e a" by simp
  with Callback show ?thesis by (simp add: appCallback_inventory)
qed

lemma appStep_bounds:
  assumes "appStep act a = Some a'" and "0 \<le> fishInventory a" and "fishInventory a \<le> 3"
  shows "0 \<le> fishInventory a' \<and> fishInventory a' \<le> 3"
  using appStep_inventory [OF assms(1)] assms(2,3) by auto

lemma appRun_bounds:
  assumes "appRun acts a = Some a'" and "0 \<le> fishInventory a" and "fishInventory a \<le> 3"
  shows "0 \<le> fishInventory a' \<and> fishInventory a' \<le> 3"
  using assms
proof (induction acts arbitrary: a)
  case Nil
  then show ?case by simp
next
  case (Cons act acts)
  then obtain a1 where st: "appStep act a = Some a1" and rest: "appRun acts a1 = Some a'"
    by (auto split: option.splits)
  from appStep_bounds [OF st Cons.prems(2,3)] Cons.IH [OF rest] show ?case by blast
qed

text \<open>
  C4. In every state of \<open>App\<close> that a sequence of actions reaches from the initial state, the
  inventory lies between 0 and 3. During play (game state PLAYING) an action that changes the
  inventory is either a tap on a cooking slot in state perfect while the inventory is below 3,
  which adds exactly 1, or the deliver callback, which subtracts 1 with a floor of 0. (Outside
  play the only other change is the reset to 0 by \<open>startGame\<close>, which the PLAYING view does
  not offer.)
\<close>

theorem fishInventory_bounded:
  assumes "appRun acts initialApp = Some a"
  shows "0 \<le> fishInventory a \<and> fishInventory a \<le> 3
       \<and> (\<forall>act a'. gameState a = PLAYING \<and> appStep act a = Some a'
              \<and> fishInventory a' \<noteq> fishInventory a \<longrightarrow>
            (\<exists>i. act = Tap i \<and> i < length (grillSlots a) \<and> g_isCooking (grillSlots a ! i)
               \<and> g_state (grillSlots a ! i) = Perfect \<and> fishInventory a < 3
               \<and> fishInventory a' = fishInventory a + 1)
          \<or> (act = Callback OnDeliverFish \<and> fishInventory a' = max 0 (fishInventory a - 1)))"
proof -
  have "0 \<le> fishInventory a \<and> fishInventory a \<le> 3"
    using appRun_bounds [OF assms] by (simp add: initialApp_def)
  moreover have "(\<exists>i. act = Tap i \<and> i < length (grillSlots a) \<and> g_isCooking (grillSlots a ! i)
               \<and> g_state (grillSlots a ! i) = Perfect \<and> fishInventory a < 3
               \<and> fishInventory a' = fishInventory a + 1)
          \<or> (act = Callback OnDeliverFish \<and> fishInventory a' = max 0 (fishInventory a - 1))"
    if "gameState a = PLAYING" and "appStep act a = Some a'"
      and "fishInventory a' \<noteq> fishInventory a" for act a'
    using appStep_inventory [OF that(2)] that(1,3) by blast
  ultimately show ?thesis by blast
qed

lemma cookedRun_reaches: "appRun cookedRun initialApp = Some cookedApp"
  by (simp add: cookedRun_def initialApp_def startGame_def handleCollectFish_def
      emptySlots_def cookTick_def cookSlot_def Let_def numeral_eq_Suc cookedApp_def)

theorem fishInventory_bounded_witness:
  "appRun cookedRun initialApp = Some cookedApp
   \<and> 0 \<le> fishInventory cookedApp \<and> fishInventory cookedApp \<le> 3
   \<and> gameState cookedApp = PLAYING
   \<and> (\<exists>a'. appStep (Tap 0) cookedApp = Some a' \<and> fishInventory a' = fishInventory cookedApp + 1
         \<and> appRun (cookedRun @ [Tap 0, Callback OnDeliverFish]) initialApp
             = Some (a'\<lparr>fishInventory := 0\<rparr>))"
proof -
  note b = fishInventory_bounded [OF cookedRun_reaches]
  have run2: "appRun (cookedRun @ acts) initialApp = appRun acts cookedApp" for acts
    using cookedRun_reaches
    by (simp add: cookedRun_def initialApp_def startGame_def handleCollectFish_def
      emptySlots_def cookTick_def cookSlot_def Let_def numeral_eq_Suc cookedApp_def)
  show ?thesis
    using b cookedRun_reaches
    by (simp add: run2) (simp add: cookedApp_def handleSlotTap_def handleDeliverFish_def)
qed

section \<open>The speed of the avalanche\<close>

lemma avTargetSpeed_segments:
  "(t < 30 \<longrightarrow> avTargetSpeed t = avTargetSpeed 0 + 0.15 * t)
 \<and> (30 \<le> t \<and> t < 90 \<longrightarrow> avTargetSpeed t = avTargetSpeed 30 + 0.2 * (t - 30))
 \<and> (90 \<le> t \<and> t < 120 \<longrightarrow> avTargetSpeed t = avTargetSpeed 90 + 0.075 * (t - 90))
 \<and> (120 \<le> t \<and> t < 180 \<longrightarrow> avTargetSpeed t = avTargetSpeed 120 + 0.03 * (t - 120))
 \<and> (180 \<le> t \<longrightarrow> avTargetSpeed t = avTargetSpeed 180 + 0.01 * (t - 180))"
  by (simp add: avTargetSpeed_def)

lemma avTargetSpeed_joints:
  "avTargetSpeed 0 = 9
 \<and> avTargetSpeed 30 = avTargetSpeed 0 + 0.15 * 30
 \<and> avTargetSpeed 90 = avTargetSpeed 30 + 0.2 * 60
 \<and> avTargetSpeed 120 = avTargetSpeed 90 + 0.075 * 30
 \<and> avTargetSpeed 180 = avTargetSpeed 120 + 0.03 * 60"
  by (simp add: avTargetSpeed_def)

lemma updatePhysics_avalanche:
  assumes "\<not> returnsEarly g" and "updatePhysics e gs g = (evs, g')"
  shows "avalancheX g' = min (avalancheX g + (avTargetSpeed e
            - (if p_invincibleTimer (player g') > 0 then 2 else 0)))
          (p_x (player g') + 100)"
proof -
  from assms obtain p4 ev5 avX p5 where
    av: "avalancheLogic e gs (avalancheX g) p4 = (ev5, avX, p5)"
    and g': "avalancheX g' = avX" "player g' = p5"
    by (rule updatePhysics_normalE) auto
  from av have "avX = min (avalancheX g + avalancheAdvance e p4) (p_x p4 + 100)"
    and "p_x p5 = p_x p4" and "p_invincibleTimer p5 = p_invincibleTimer p4"
    by (auto simp: avalancheLogic_eq Let_def split: if_splits)
  with g' show ?thesis by (simp add: avalancheAdvance_def)
qed

text \<open>
  C8, as the claim states it, fails: the rates are not progressively shallower. One second
  into the second segment the target speed has grown by 0.2, more than the 0.15 it grows in
  the first second of the first segment.
\<close>

theorem avalanche_rates_counterexample:
  "avTargetSpeed 31 - avTargetSpeed 30 > avTargetSpeed 1 - avTargetSpeed 0"
  by (simp add: avTargetSpeed_def)

text \<open>
  C8, amended. The target speed of the avalanche is a piecewise-linear function of the
  elapsed seconds with five segments (before 30 s, 30 to 90 s, 90 to 120 s, 120 to 180 s,
  from 180 s on); on each segment it is the speed at the start of the segment plus a
  per-second rate times the seconds into the segment, and the segments join without a jump.
  The rates are 0.15, 0.2, 0.075, 0.03 and 0.01: the second segment is steeper than the
  first, and from the second segment on each segment is shallower than the one before.
  In a tick that reaches the avalanche logic the boundary advances by the target speed,
  less 2 while the player is invincible, up to the clamp at \<open>player.x + 100\<close>.
\<close>

theorem avalanche_speed_schedule:
  "(t < 30 \<longrightarrow> avTargetSpeed t = avTargetSpeed 0 + 0.15 * t)
 \<and> (30 \<le> t \<and> t < 90 \<longrightarrow> avTargetSpeed t = avTargetSpeed 30 + 0.2 * (t - 30))
 \<and> (90 \<le> t \<and> t < 120 \<longrightarrow> avTargetSpeed t = avTargetSpeed 90 + 0.075 * (t - 90))
 \<and> (120 \<le> t \<and> t < 180 \<longrightarrow> avTargetSpeed t = avTargetSpeed 120 + 0.03 * (t - 120))
 \<and> (180 \<le> t \<longrightarrow> avTargetSpeed t = avTargetSpeed 180 + 0.01 * (t - 180))
 \<and> avTargetSpeed 0 = 9
 \<and> avTargetSpeed 30 = avTargetSpeed 0 + 0.15 * 30
 \<and> avTargetSpeed 90 = avTargetSpeed 30 + 0.2 * 60
 \<and> avTargetSpeed 120 = avTargetSpeed 90 + 0.075 * 30
 \<and> avTargetSpeed 180 = avTargetSpeed 120 + 0.03 * 60
 \<and> (avTargetSpeed 30 - avTargetSpeed 0) / 30 < (avTargetSpeed 90 - avTargetSpeed 30) / 60
 \<and> (avTargetSpeed 120 - avTargetSpeed 90) / 30 < (avTargetSpeed 90 - avTargetSpeed 30) / 60
 \<and> (avTargetSpeed 180 - avTargetSpeed 120) / 60 < (avTargetSpeed 120 - avTargetSpeed 90) / 30
 \<and> (avTargetSpeed 240 - avTargetSpeed 180) / 60 < (avTargetSpeed 180 - avTargetSpeed 120) / 60
 \<and> (\<not> returnsEarly g \<and> updatePhysics e gs g = (evs, g') \<longrightarrow>
      avalancheX g' = min (avalancheX g + (avTargetSpeed e
            - (if p_invincibleTimer (player g') > 0 then 2 else 0)))
          (p_x (player g') + 100))"
proof -
  have slopes:
    "(avTargetSpeed 30 - avTargetSpeed 0) / 30 < (avTargetSpeed 90 - avTargetSpeed 30) / 60
   \<and> (avTargetSpeed 120 - avTargetSpeed 90) / 30 < (avTargetSpeed 90 - avTargetSpeed 30) / 60
   \<and> (avTargetSpeed 180 - avTargetSpeed 120) / 60 < (avTargetSpeed 120 - avTargetSpeed 90) / 30
   \<and> (avTargetSpeed 240 - avTargetSpeed 180) / 60 < (avTargetSpeed 180 - avTargetSpeed 120) / 60"
    by (simp add: avTargetSpeed_def)
  show ?thesis
    using avTargetSpeed_segments [of t] avTargetSpeed_joints slopes
      updatePhysics_avalanche [of g e gs evs g']
    by blast
qed

theorem avalanche_speed_schedule_witness:
  "avTargetSpeed 10 = avTargetSpeed 0 + 0.15 * 10
 \<and> avTargetSpeed 60 = avTargetSpeed 30 + 0.2 * (60 - 30)
 \<and> avTargetSpeed 100 = avTargetSpeed 90 + 0.075 * (100 - 90)
 \<and> avTargetSpeed 150 = avTargetSpeed 120 + 0.03 * (150 - 120)
 \<and> avTargetSpeed 200 = avTargetSpeed 180 + 0.01 * (200 - 180)
 \<and> \<not> returnsEarly startedGame
 \<and> avalancheX (snd (updatePhysics 10 PLAYING startedGame)) = - 800 + (9 + 0.15 * 10)"
proof -
  have ne: "\<not> returnsEarly startedGame"
    by (simp add: start_defs tick_defs)
  have up: "updatePhysics 10 PLAYING startedGame =
      (fst (updatePhysics 10 PLAYING startedGame), snd (updatePhysics 10 PLAYING startedGame))"
    by simp
  have px: "p_x (player (snd (updatePhysics 10 PLAYING startedGame))) = 108.1"
    and inv: "p_invincibleTimer (player (snd (updatePhysics 10 PLAYING startedGame))) = 0"
    by (simp_all add: start_defs tick_defs)
  have av0: "avalancheX startedGame = - 800"
    by (simp add: start_defs)
  have tick: "avalancheX (snd (updatePhysics 10 PLAYING startedGame)) =
      min (avalancheX startedGame + (avTargetSpeed 10
            - (if p_invincibleTimer (player (snd (updatePhysics 10 PLAYING startedGame))) > 0
               then 2 else 0)))
          (p_x (player (snd (updatePhysics 10 PLAYING startedGame))) + 100)"
    using avalanche_speed_schedule [of 10 startedGame 10 PLAYING
         "fst (updatePhysics 10 PLAYING startedGame)" "snd (updatePhysics 10 PLAYING startedGame)"]
       ne up by blast
  have segs: "avTargetSpeed 10 = avTargetSpeed 0 + 0.15 * 10
     \<and> avTargetSpeed 60 = avTargetSpeed 30 + 0.2 * (60 - 30)
     \<and> avTargetSpeed 100 = avTargetSpeed 90 + 0.075 * (100 - 90)
     \<and> avTargetSpeed 150 = avTargetSpeed 120 + 0.03 * (150 - 120)
     \<and> avTargetSpeed 200 = avTargetSpeed 180 + 0.01 * (200 - 180)"
    using avalanche_speed_schedule [of 10] avalanche_speed_schedule [of 60]
       avalanche_speed_schedule [of 100] avalanche_speed_schedule [of 150]
       avalanche_speed_schedule [of 200]
    by simp
  have "avalancheX (snd (updatePhysics 10 PLAYING startedGame)) = - 800 + (9 + 0.15 * 10)"
    unfolding tick px inv av0 by (simp add: avTargetSpeed_def)
  with segs ne show ?thesis by blast
qed

section \<open>The reported scores\<close>

text \<open>
  C10. Every score that a tick reports to the HUD, and the final score that it reports at
  death, is the floor of a tenth of the player's position after the tick; a tick that does
  not return early reports exactly one score to the HUD. The accumulator \<open>player.score\<close>
  receives, in a tick, 0, 150 or 300 points per counted rotation from the landing and 500
  points for each delivery, and it influences nothing else: with any amount added to the
  accumulator beforehand the tick emits the same events and ends in the same state, but for
  the accumulator, which carries the amount along.
\<close>

theorem reported_score_is_distance:
  assumes "updatePhysics e gs g = (evs, g')"
  shows "(\<forall>sc sp st d. OnScoreUpdate sc sp st d \<in> set evs \<longrightarrow> sc = \<lfloor>p_x (player g') / 10\<rfloor>)
       \<and> (\<forall>n. OnGameOver n \<in> set evs \<longrightarrow> n = \<lfloor>p_x (player g') / 10\<rfloor>)
       \<and> (\<not> returnsEarly g \<longrightarrow> length (filter isScoreUpdate evs) = 1)
       \<and> (\<exists>b \<in> {0, 150, 300}. p_score (player g') =
             p_score (player g) + b * p_backflipCount (player g) + 500 * int (deliveries evs))
       \<and> (\<forall>k. updatePhysics e gs (g\<lparr>player := withScore k (player g)\<rparr>) =
             (evs, g'\<lparr>player := withScore k (player g')\<rparr>))"
  using updatePhysics_reports [OF assms] updatePhysics_withScore [OF assms] by blast

theorem reported_score_is_distance_witness:
  "fst (updatePhysics 10 PLAYING caughtGame) =
     [OnGameOver 10, Audio (SetEmergencyMode True), OnScoreUpdate 10 (81 / 10) None 2]
   \<and> \<lfloor>p_x (player (snd (updatePhysics 10 PLAYING caughtGame))) / 10\<rfloor> = 10
   \<and> p_score (player (snd (updatePhysics 10 PLAYING caughtGame))) = 650
   \<and> \<not> returnsEarly caughtGame
   \<and> fst (updatePhysics 10 PLAYING (caughtGame\<lparr>player := withScore 100 (player caughtGame)\<rparr>))
       = [OnGameOver 10, Audio (SetEmergencyMode True), OnScoreUpdate 10 (81 / 10) None 2]"
proof -
  have up: "updatePhysics 10 PLAYING caughtGame =
      (fst (updatePhysics 10 PLAYING caughtGame), snd (updatePhysics 10 PLAYING caughtGame))"
    by simp
  note th = reported_score_is_distance [OF up]
  have ev: "fst (updatePhysics 10 PLAYING caughtGame) =
     [OnGameOver 10, Audio (SetEmergencyMode True), OnScoreUpdate 10 (81 / 10) None 2]"
    by (simp add: caughtGame_def start_defs tick_defs)
  have px: "p_x (player (snd (updatePhysics 10 PLAYING caughtGame))) = 108.1"
    and sc: "p_score (player (snd (updatePhysics 10 PLAYING caughtGame))) = 650"
    and ne: "\<not> returnsEarly caughtGame"
    by (simp_all add: caughtGame_def start_defs tick_defs)
  from th have "fst (updatePhysics 10 PLAYING
        (caughtGame\<lparr>player := withScore 100 (player caughtGame)\<rparr>))
       = fst (updatePhysics 10 PLAYING caughtGame)"
    by simp
  moreover have "\<lfloor>p_x (player (snd (updatePhysics 10 PLAYING caughtGame))) / 10\<rfloor> = 10"
    unfolding px by (simp add: floor_eq_iff)
  ultimately show ?thesis using ev sc ne by simp
qed

section \<open>The passed flag of an obstacle\<close>

lemma obstacleCollision_place:
  assumes "obstacleCollision t obss p sh = (ev, obss', p1, sh1)"
  shows "p_y p1 = p_y p"
  using assms
  by (auto simp: obstacleCollision_def obstacleLoop_eq split: if_splits)

lemma cabinLoop_place:
  assumes "cabinLoop decs p = (ev, decs', p1)"
  shows "p_y p1 = p_y p"
  using assms by (auto simp: cabinLoop_eq split: if_splits)

lemma powerUpLoop_place:
  assumes "powerUpLoop pus p = (ev, pus', p1)"
  shows "p_y p1 = p_y p"
  using assms by (auto simp: powerUpLoop_eq split: if_splits)

lemma avalancheLogic_place:
  assumes "avalancheLogic e gs avX p = (ev, av, p1)"
  shows "p_y p1 = p_y p \<and> p_x p1 = p_x p"
  using assms by (auto simp: avalancheLogic_eq Let_def split: if_splits)

lemma markHit_place: "p_x p' = p_x p \<Longrightarrow> p_y p' = p_y p \<Longrightarrow> markHit t p' = markHit t p"
  by (rule ext) (simp add: markHit_def hitsObstacle_def)

lemma updatePhysics_obstacles:
  assumes "updatePhysics e gs g = (evs, g')"
  shows "obstacles g' =
     (if \<not> returnsEarly g \<and> p_invincibleTimer (integrate g) \<le> 0 \<and> p_flightTimer (integrate g) \<le> 0
      then map (markHit (terrain g) (player g')) (obstacles g)
      else obstacles g)"
proof (cases "returnsEarly g")
  case True
  from updatePhysics_early [OF True, of e gs] assms show ?thesis using True by auto
next
  case False
  from False assms obtain ev1 p1 shake1 ev2 obss p2 shake2 ev3 decs p3 ev4 pus p4 ev5 avX p5
    where st:
    "floorCollision (isHolding g) (getGroundY (terrain g) (p_x (integrate g))) (integrate g)
       (cameraShake g) = (ev1, p1, shake1)"
    "obstacleCollision (terrain g) (obstacles g) p1 shake1 = (ev2, obss, p2, shake2)"
    "cabinLoop (decorations g) p2 = (ev3, decs, p3)"
    "powerUpLoop (powerUps g) p3 = (ev4, pus, p4)"
    "avalancheLogic e gs (avalancheX g) p4 = (ev5, avX, p5)"
    and res: "evs = ev1 @ ev2 @ ev3 @ ev4 @ ev5 @ hudUpdate avX p5"
    "g' = g\<lparr>player := p5, obstacles := obss, decorations := decs, powerUps := pus,
             cameraShake := shake2, avalancheX := avX\<rparr>"
    by (rule updatePhysics_normalE)
  have tm: "p_invincibleTimer p1 = p_invincibleTimer (integrate g)"
    "p_flightTimer p1 = p_flightTimer (integrate g)"
    using floorCollision_course [OF st(1)] by simp_all
  have "p_x p5 = p_x p1 \<and> p_y p5 = p_y p1"
    using obstacleCollision_course [OF st(2)] obstacleCollision_place [OF st(2)]
      cabinLoop_course [OF st(3)] cabinLoop_place [OF st(3)]
      powerUpLoop_course [OF st(4)] powerUpLoop_place [OF st(4)]
      avalancheLogic_place [OF st(5)]
    by (simp add: sameCourse_def)
  then have mh: "markHit (terrain g) p5 = markHit (terrain g) p1"
    using markHit_place [of p5 p1] by blast
  have "obss = (if p_invincibleTimer p1 \<le> 0 \<and> p_flightTimer p1 \<le> 0
      then map (markHit (terrain g) p1) (obstacles g) else obstacles g)"
    using st(2) by (auto simp: obstacleCollision_def obstacleLoop_eq split: if_splits)
  with tm mh res(2) False show ?thesis by simp
qed

lemma addTerrain_obstacles:
  "\<exists>new. (new = [] \<or> (\<exists>obs. new = [obs] \<and> \<not> o_passed obs))
            \<and> obstacles (addTerrain r playerX g) = obstacles g @ new"
  by (simp add: addTerrain_def Let_def)

lemma cleanupTerrain_obstacles:
  "obstacles (cleanupTerrain playerX g) = cleanupObstacles playerX (obstacles g)"
  by (simp add: cleanupTerrain_def cleanupObstacles_def Let_def)

lemma updateTerrain_obstacles:
  assumes "updateTerrain r playerX g = Some g1"
  shows "\<exists>new. (new = [] \<or> (\<exists>obs. new = [obs] \<and> \<not> o_passed obs))
            \<and> obstacles g1 = cleanupObstacles playerX (obstacles g @ new)"
proof -
  from assms have "g1 = cleanupTerrain playerX (addTerrain r playerX g)"
    by (auto simp: updateTerrain_def split: if_splits)
  then have "obstacles g1 = cleanupObstacles playerX (obstacles (addTerrain r playerX g))"
    by (simp add: cleanupTerrain_obstacles)
  with addTerrain_obstacles [of r playerX g] show ?thesis by metis
qed

text \<open>
  C9, as the claim states it, fails: the flag is not set when the player has cleared the
  obstacle. In \<open>clearedGame\<close> the player is in the air above the rock at 120; after the tick the
  player is beyond the rock's hit band (which ends at 127), and since the player only moves
  forward the rock can no longer be hit, but its flag is still false.
\<close>

theorem obstacle_cleared_counterexample:
  "map o_passed (obstacles (snd (updatePhysics 10 PLAYING clearedGame))) = [False]
   \<and> p_x (player (snd (updatePhysics 10 PLAYING clearedGame))) > 120 + 7"
  by (simp add: clearedGame_def start_defs tick_defs hitsObstacle_def)

text \<open>
  C9, amended. An obstacle's passed flag is set true only when the player hits the obstacle:
  in a tick that does not return early and in which the player is neither invincible nor in
  flight mode, exactly the unpassed obstacles that the player hits (within 7 of the
  obstacle's x and below its top) get the flag; no other code sets it, an obstacle that the
  player clears keeps the flag false. The flag is never cleared: once true it stays true.
  Obstacles are only removed by the cleanup of \<open>updateTerrain\<close>, which drops the first
  obstacle when it lies more than a game width behind the player; new obstacles are appended
  unpassed; the input handlers leave the obstacles alone.
\<close>

theorem obstacle_passed_flag:
  "(updatePhysics e gs g = (evs, g') \<longrightarrow>
      obstacles g' =
        (if \<not> returnsEarly g \<and> p_invincibleTimer (integrate g) \<le> 0
            \<and> p_flightTimer (integrate g) \<le> 0
         then map (markHit (terrain g) (player g')) (obstacles g)
         else obstacles g))
 \<and> (o_passed obs \<longrightarrow> markHit t p obs = obs)
 \<and> (markHit t p obs \<noteq> obs \<longrightarrow>
      \<not> o_passed obs \<and> hitsObstacle t p obs \<and> markHit t p obs = obs\<lparr>o_passed := True\<rparr>)
 \<and> (updateTerrain r playerX g = Some g1 \<longrightarrow>
      (\<exists>new. (new = [] \<or> (\<exists>ob. new = [ob] \<and> \<not> o_passed ob))
         \<and> obstacles g1 = cleanupObstacles playerX (obstacles g @ new)))
 \<and> obstacles (snd (handleInputStart clickY rectHeight gs g)) = obstacles g
 \<and> obstacles (handleInputEnd g) = obstacles g"
proof -
  have "obstacles (snd (handleInputStart clickY rectHeight gs g)) = obstacles g"
    by (simp add: handleInputStart_def Let_def)
  moreover have "obstacles (handleInputEnd g) = obstacles g"
    by (simp add: handleInputEnd_def)
  moreover have "o_passed obs \<longrightarrow> markHit t p obs = obs"
    by (simp add: markHit_def)
  moreover have "markHit t p obs \<noteq> obs \<longrightarrow>
      \<not> o_passed obs \<and> hitsObstacle t p obs \<and> markHit t p obs = obs\<lparr>o_passed := True\<rparr>"
    by (simp add: markHit_def)
  ultimately show ?thesis
    using updatePhysics_obstacles [of e gs g evs g'] updateTerrain_obstacles [of r playerX g g1]
    by blast
qed

theorem obstacle_passed_flag_witness:
  "\<not> returnsEarly rockGame
 \<and> map o_passed (obstacles rockGame) = [False]
 \<and> map (hitsObstacle (terrain rockGame) (player (snd (updatePhysics 10 PLAYING rockGame))))
      (obstacles rockGame) = [True]
 \<and> map o_passed (obstacles (snd (updatePhysics 10 PLAYING rockGame))) = [True]
 \<and> map o_passed (obstacles (snd (updatePhysics 11 PLAYING (snd (updatePhysics 10 PLAYING rockGame)))))
      = [True]"
proof -
  let ?g1 = "snd (updatePhysics 10 PLAYING rockGame)"
  let ?g2 = "snd (updatePhysics 11 PLAYING ?g1)"
  have up1: "updatePhysics 10 PLAYING rockGame = (fst (updatePhysics 10 PLAYING rockGame), ?g1)"
    and up2: "updatePhysics 11 PLAYING ?g1 = (fst (updatePhysics 11 PLAYING ?g1), ?g2)"
    by simp_all
  have ne: "\<not> returnsEarly rockGame"
    and vul: "p_invincibleTimer (integrate rockGame) \<le> 0" "p_flightTimer (integrate rockGame) \<le> 0"
    and ob: "map o_passed (obstacles rockGame) = [False]"
    by (simp_all add: rockGame_def start_defs tick_defs)
  have hit: "map (hitsObstacle (terrain rockGame) (player ?g1)) (obstacles rockGame) = [True]"
    by (simp add: rockGame_def start_defs tick_defs hitsObstacle_def)
  from obstacle_passed_flag [of 10 PLAYING rockGame "fst (updatePhysics 10 PLAYING rockGame)" ?g1]
    up1
  have "obstacles ?g1 =
        (if \<not> returnsEarly rockGame \<and> p_invincibleTimer (integrate rockGame) \<le> 0
            \<and> p_flightTimer (integrate rockGame) \<le> 0
         then map (markHit (terrain rockGame) (player ?g1)) (obstacles rockGame)
         else obstacles rockGame)"
    by blast
  with ne vul
  have o1: "obstacles ?g1 = map (markHit (terrain rockGame) (player ?g1)) (obstacles rockGame)"
    by simp
  with hit ob have p1: "map o_passed (obstacles ?g1) = [True]"
    by (auto simp: markHit_def)
  have keep: "markHit t p obs = obs" if "o_passed obs" for t p obs
    using that obstacle_passed_flag [of 11 PLAYING ?g1 "fst (updatePhysics 11 PLAYING ?g1)" ?g2 obs t p]
    by blast
  from obstacle_passed_flag [of 11 PLAYING ?g1 "fst (updatePhysics 11 PLAYING ?g1)" ?g2] up2
  have "obstacles ?g2 =
        (if \<not> returnsEarly ?g1 \<and> p_invincibleTimer (integrate ?g1) \<le> 0
            \<and> p_flightTimer (integrate ?g1) \<le> 0
         then map (markHit (terrain ?g1) (player ?g2)) (obstacles ?g1)
         else obstacles ?g1)"
    by blast
  then have "obstacles ?g2 = map (markHit (terrain ?g1) (player ?g2)) (obstacles ?g1)
        \<or> obstacles ?g2 = obstacles ?g1"
    by metis
  with p1 keep have "map o_passed (obstacles ?g2) = [True]"
    by auto
  with ne ob hit p1 show ?thesis by simp
qed

section \<open>Cabins, power-ups and the inventory within a tick\<close>

lemma inPickupRange_iff:
  "inPickupRange p pu =
     ((p_x p - pu_x pu) * (p_x p - pu_x pu) + (p_y p - pu_y pu) * (p_y p - pu_y pu) < 2500)"
proof -
  have "sqrt x < 50 \<longleftrightarrow> x < 2500" for x :: real
    using real_sqrt_less_iff [of x 2500] by simp
  then show ?thesis by (simp add: inPickupRange_def hypot_def)
qed

lemma dispatch_inventory:
  "0 \<le> fishInventory a \<Longrightarrow>
     fishInventory (dispatch evs a) = max 0 (fishInventory a - int (deliveries evs))"
proof (induction evs arbitrary: a)
  case Nil
  then show ?case by (simp add: dispatch_def)
next
  case (Cons e evs)
  have step: "dispatch (e # evs) a = dispatch evs (appCallback e a)"
    by (simp add: dispatch_def)
  have nn: "0 \<le> fishInventory (appCallback e a)"
    using Cons.prems by (simp add: appCallback_inventory)
  show ?case
    unfolding step Cons.IH [OF nn]
    using Cons.prems by (auto simp: appCallback_inventory deliveries_def)
qed

lemma integrate_inventory: "p_fishInventory (integrate g) = fishInventoryRef g"
  by (simp add: integrate_def)

lemma nearCabin_place: "p_x p' = p_x p \<Longrightarrow> p_y p' = p_y p \<Longrightarrow> nearCabin p' = nearCabin p"
  by (rule ext) (simp add: nearCabin_def)

lemma pickedUp_place: "p_x p' = p_x p \<Longrightarrow> p_y p' = p_y p \<Longrightarrow> pickedUp p' = pickedUp p"
  by (rule ext) (simp add: pickedUp_def inPickupRange_def)

lemma collects_append [simp]: "collects (xs @ ys) = collects xs + collects ys"
  by (simp add: collects_def)

lemma landing_collects: "landing a p sh = (ev, p1, sh1) \<Longrightarrow> collects ev = 0"
  by (auto simp: landing_def Let_def collects_def split: if_splits)

lemma floorCollision_collects:
  assumes "floorCollision h gr p sh = (ev, p1, sh1)"
  shows "collects ev = 0"
proof (cases "touchesFloor p (fst gr) \<and> \<not> p_isGrounded p")
  case True
  obtain ev0 q sh0 where l: "landing (snd gr) p sh = (ev0, q, sh0)"
    by (cases "landing (snd gr) p sh") auto
  with assms True have "ev = ev0"
    by (auto simp: floorCollision_def Let_def)
  with landing_collects [OF l] show ?thesis by simp
next
  case False
  with assms have "ev = []"
    by (auto simp: floorCollision_def Let_def split: if_splits)
  then show ?thesis by (simp add: collects_def)
qed

lemma obstacleCollision_collects:
  "obstacleCollision t obss p sh = (ev, obss', p1, sh1) \<Longrightarrow> collects ev = 0"
  by (auto simp: obstacleCollision_def obstacleLoop_eq collects_def split: if_splits)

lemma cabin_collects:
  "collects (concat (map (\<lambda>dec. if P dec then [OnDeliverFish, Audio PlayApplause] else []) decs)) = 0"
  by (induction decs) (simp_all add: collects_def)

lemma powerUp_collects:
  "collects (concat (map (\<lambda>pu. if P pu
                         then (if pu_type pu = Fish then [OnCollectFish, Audio (PlayPowerUp Fish)]
                               else [Audio (PlayPowerUp Sunglasses)])
                         else []) pus)) = length (filter (\<lambda>pu. P pu \<and> pu_type pu = Fish) pus)"
  by (induction pus) (simp_all add: collects_def)

lemma avalancheLogic_collects:
  "avalancheLogic e gs avX p = (ev, av, p1) \<Longrightarrow> collects ev = 0"
  by (auto simp: avalancheLogic_eq Let_def collects_def split: if_splits)

lemma hudUpdate_collects: "collects (hudUpdate avX p) = 0"
  by (simp add: hudUpdate_def collects_def Let_def)

lemma updatePhysics_entities:
  assumes "updatePhysics e gs g = (evs, g')"
  shows "p_fishInventory (player g') = fishInventoryRef g
       \<and> fishInventoryRef g' = fishInventoryRef g
       \<and> (\<not> returnsEarly g \<longrightarrow>
            decorations g' =
              map (\<lambda>dec. if nearCabin (player g') dec \<and> fishInventoryRef g > 0
                          then dec\<lparr>d_delivered := True\<rparr> else dec) (decorations g)
          \<and> deliveries evs =
              length (filter (\<lambda>dec. nearCabin (player g') dec \<and> fishInventoryRef g > 0)
                        (decorations g))
          \<and> powerUps g' =
              map (\<lambda>pu. if pickedUp (player g') pu then pu\<lparr>pu_collected := True\<rparr> else pu)
                (powerUps g)
          \<and> collects evs =
              length (filter (\<lambda>pu. pickedUp (player g') pu \<and> pu_type pu = Fish) (powerUps g)))"
proof (cases "returnsEarly g")
  case True
  from updatePhysics_early [OF True, of e gs] assms show ?thesis
    using True by (auto simp: integrate_inventory)
next
  case False
  from False assms obtain ev1 p1 shake1 ev2 obss p2 shake2 ev3 decs p3 ev4 pus p4 ev5 avX p5
    where st:
    "floorCollision (isHolding g) (getGroundY (terrain g) (p_x (integrate g))) (integrate g)
       (cameraShake g) = (ev1, p1, shake1)"
    "obstacleCollision (terrain g) (obstacles g) p1 shake1 = (ev2, obss, p2, shake2)"
    "cabinLoop (decorations g) p2 = (ev3, decs, p3)"
    "powerUpLoop (powerUps g) p3 = (ev4, pus, p4)"
    "avalancheLogic e gs (avalancheX g) p4 = (ev5, avX, p5)"
    and res: "evs = ev1 @ ev2 @ ev3 @ ev4 @ ev5 @ hudUpdate avX p5"
    "g' = g\<lparr>player := p5, obstacles := obss, decorations := decs, powerUps := pus,
             cameraShake := shake2, avalancheX := avX\<rparr>"
    by (rule updatePhysics_normalE)
  note c1 = floorCollision_course [OF st(1)] and c2 = obstacleCollision_course [OF st(2)]
    and c3 = cabinLoop_course [OF st(3)] and c4 = powerUpLoop_course [OF st(4)]
    and c5 = avalancheLogic_place [OF st(5)]
  have inv2: "p_fishInventory p2 = fishInventoryRef g"
    using c1 c2 by (simp add: sameCourse_def integrate_inventory)
  have inv5: "p_fishInventory p5 = fishInventoryRef g"
    using inv2 c3 c4 st(5) by (auto simp: sameCourse_def avalancheLogic_eq Let_def split: if_splits)
  have pl2: "p_x p5 = p_x p2 \<and> p_y p5 = p_y p2"
    using c3 c4 c5 cabinLoop_place [OF st(3)] powerUpLoop_place [OF st(4)]
    by (simp add: sameCourse_def)
  have pl3: "p_x p5 = p_x p3 \<and> p_y p5 = p_y p3"
    using c4 c5 powerUpLoop_place [OF st(4)]
    by (simp add: sameCourse_def)
  have nc: "nearCabin p5 = nearCabin p2" using nearCabin_place [of p5 p2] pl2 by blast
  have pk: "pickedUp p5 = pickedUp p3" using pickedUp_place [of p5 p3] pl3 by blast
  have dt: "deliverTo p2 = (\<lambda>dec. nearCabin p5 dec \<and> fishInventoryRef g > 0)"
    by (rule ext) (simp add: deliverTo_def nc inv2)
  have decs: "decs = map (\<lambda>dec. if nearCabin p5 dec \<and> fishInventoryRef g > 0
                          then dec\<lparr>d_delivered := True\<rparr> else dec) (decorations g)"
    and ev3: "ev3 = concat (map (\<lambda>dec. if deliverTo p2 dec
                 then [OnDeliverFish, Audio PlayApplause] else []) (decorations g))"
    using st(3) by (simp_all add: cabinLoop_eq dt)
  have pus: "pus = map (\<lambda>pu. if pickedUp p5 pu then pu\<lparr>pu_collected := True\<rparr> else pu)
                (powerUps g)"
    and ev4: "ev4 = concat (map (\<lambda>pu. if pickedUp p5 pu
                         then (if pu_type pu = Fish then [OnCollectFish, Audio (PlayPowerUp Fish)]
                               else [Audio (PlayPowerUp Sunglasses)])
                         else []) (powerUps g))"
    using st(4) by (simp_all add: powerUpLoop_eq pk)
  have dl: "deliveries evs = deliveries ev3"
    unfolding res(1)
    using floorCollision_score [OF st(1)] obstacleCollision_score [OF st(2)]
      powerUpLoop_score [OF st(4)] avalancheLogic_score [OF st(5)] hudUpdate_score [of avX p5]
    by simp
  have "deliveries ev3 = length (filter (deliverTo p2) (decorations g))"
    unfolding ev3 using cabin_events [of "deliverTo p2" "decorations g"] by simp
  with dl dt have dl2: "deliveries evs =
      length (filter (\<lambda>dec. nearCabin p5 dec \<and> fishInventoryRef g > 0) (decorations g))"
    by simp
  have cl: "collects evs = collects ev4"
    unfolding res(1)
    using floorCollision_collects [OF st(1)] obstacleCollision_collects [OF st(2)]
      avalancheLogic_collects [OF st(5)] hudUpdate_collects [of avX p5]
      cabin_collects [of "deliverTo p2" "decorations g"] ev3
    by simp
  have cl2: "collects evs =
       length (filter (\<lambda>pu. pickedUp p5 pu \<and> pu_type pu = Fish) (powerUps g))"
    unfolding cl ev4 by (rule powerUp_collects)
  have "player g' = p5" "decorations g' = decs" "powerUps g' = pus"
    "fishInventoryRef g' = fishInventoryRef g"
    using res(2) by simp_all
  with inv5 decs pus dl2 cl2 show ?thesis by simp
qed

lemma frame_inventory:
  assumes "sysStep (Frame e r) s = Some (evs, s')" and "0 \<le> fishInventory (app s)"
  shows "fishInventory (app s') = max 0 (fishInventory (app s) - int (deliveries evs))
       \<and> fishInventoryRef (game s') = fishInventory (app s')"
proof -
  from assms(1) obtain g' where "gameLoop e r (gameState (app s)) (game s) = Some (evs, g')"
    and s': "s' = syncInventory \<lparr>app = dispatch evs (app s), game = g'\<rparr>"
    by (auto split: option.splits)
  from s' have "app s' = dispatch evs (app s)"
    and "fishInventoryRef (game s') = fishInventory (app s')"
    by (simp_all add: syncInventory_def)
  with dispatch_inventory [OF assms(2), of evs] show ?thesis by simp
qed

lemma findIndex_None: "findIndex P xs = None \<longleftrightarrow> (\<forall>x \<in> set xs. \<not> P x)"
  by (induction xs) auto

lemma findIndex_Some:
  "findIndex P xs = Some i \<Longrightarrow> i < length xs \<and> P (xs ! i) \<and> (\<forall>j < i. \<not> P (xs ! j))"
proof (induction xs arbitrary: i)
  case Nil
  then show ?case by simp
next
  case (Cons x xs)
  show ?case
  proof (cases "P x")
    case True
    with Cons.prems show ?thesis by simp
  next
    case False
    with Cons.prems obtain k where k: "findIndex P xs = Some k" and i: "i = Suc k"
      by auto
    from Cons.IH [OF k] False i show ?thesis
      by (auto simp: less_Suc_eq_0_disj)
  qed
qed

lemma handleCollectFish_cases:
  "fishInventory (handleCollectFish a) = fishInventory a
 \<and> ((\<forall>sl \<in> set (grillSlots a). g_isCooking sl) \<longrightarrow> handleCollectFish a = a)
 \<and> (\<not> (\<forall>sl \<in> set (grillSlots a). g_isCooking sl) \<longrightarrow>
      (\<exists>i < length (grillSlots a).
          \<not> g_isCooking (grillSlots a ! i) \<and> (\<forall>j < i. g_isCooking (grillSlots a ! j))
        \<and> grillSlots (handleCollectFish a) =
            (grillSlots a)[i := (grillSlots a ! i)\<lparr>g_isCooking := True, g_progress := 0,
                                                  g_state := Raw\<rparr>]))"
proof (cases "findIndex (\<lambda>sl. \<not> g_isCooking sl) (grillSlots a)")
  case None
  then have "\<forall>sl \<in> set (grillSlots a). g_isCooking sl"
    by (simp add: findIndex_None)
  with None show ?thesis by (simp add: handleCollectFish_def Let_def)
next
  case (Some i)
  from findIndex_Some [OF Some]
  have i: "i < length (grillSlots a)" "\<not> g_isCooking (grillSlots a ! i)"
    "\<forall>j < i. g_isCooking (grillSlots a ! j)"
    by simp_all
  then have "\<not> (\<forall>sl \<in> set (grillSlots a). g_isCooking sl)"
    using nth_mem by blast
  moreover have "grillSlots (handleCollectFish a) =
            (grillSlots a)[i := (grillSlots a ! i)\<lparr>g_isCooking := True, g_progress := 0,
                                                  g_state := Raw\<rparr>]"
    and "fishInventory (handleCollectFish a) = fishInventory a"
    using Some by (simp_all add: handleCollectFish_def Let_def)
  ultimately show ?thesis using i by blast
qed

text \<open>
  C5, as the claim states it, fails: a delivery is not visible later in the same tick. With
  one fish in the inventory and two cabins within reach, the tick delivers to both cabins and
  emits two deliver events: the second cabin is judged against the snapshot 1, not against
  the decremented value 0.
\<close>

theorem second_cabin_counterexample:
  "fishInventoryRef twoCabinGame = 1
   \<and> map d_delivered (decorations (snd (updatePhysics 10 PLAYING twoCabinGame))) = [True, True]
   \<and> deliveries (fst (updatePhysics 10 PLAYING twoCabinGame)) = 2"
  by (simp add: twoCabinGame_def start_defs tick_defs nearCabin_def deliveries_def)

text \<open>
  C5, amended. The physics tick reads the inventory once, at its start, into the player
  state, and this snapshot is what the whole tick sees: the tick writes neither the snapshot
  nor the ref. In a tick that does not return early, every undelivered cabin within reach is
  delivered to when the snapshot is positive, each with one deliver event, however many
  cabins there are. The deliver events reach the inventory of \<open>App\<close> after the tick, each
  subtracting 1 with a floor of 0, and the result is what the next tick reads.
\<close>

theorem inventory_snapshot_per_tick:
  "(updatePhysics e gs g = (evs, g') \<longrightarrow>
      p_fishInventory (player g') = fishInventoryRef g
    \<and> fishInventoryRef g' = fishInventoryRef g
    \<and> (\<not> returnsEarly g \<longrightarrow>
         decorations g' =
           map (\<lambda>dec. if nearCabin (player g') dec \<and> fishInventoryRef g > 0
                       then dec\<lparr>d_delivered := True\<rparr> else dec) (decorations g)
       \<and> deliveries evs =
           length (filter (\<lambda>dec. nearCabin (player g') dec \<and> fishInventoryRef g > 0)
                     (decorations g))))
 \<and> (sysStep (Frame e r) s = Some (evs, s') \<and> 0 \<le> fishInventory (app s) \<longrightarrow>
      fishInventory (app s') = max 0 (fishInventory (app s) - int (deliveries evs))
    \<and> fishInventoryRef (game s') = fishInventory (app s'))"
  using updatePhysics_entities [of e gs g evs g'] frame_inventory [of e r s evs s']
  by blast

theorem inventory_snapshot_per_tick_witness:
  "\<not> returnsEarly twoCabinGame
 \<and> fishInventoryRef twoCabinGame = 1
 \<and> p_fishInventory (player (snd (updatePhysics 10 PLAYING twoCabinGame))) = 1
 \<and> fishInventoryRef (snd (updatePhysics 10 PLAYING twoCabinGame)) = 1
 \<and> length (filter (nearCabin (player (snd (updatePhysics 10 PLAYING twoCabinGame))))
      (decorations twoCabinGame)) = 2
 \<and> deliveries (fst (updatePhysics 10 PLAYING twoCabinGame)) = 2
 \<and> map d_delivered (decorations (snd (updatePhysics 10 PLAYING twoCabinGame))) = [True, True]"
proof -
  let ?g' = "snd (updatePhysics 10 PLAYING twoCabinGame)"
  let ?evs = "fst (updatePhysics 10 PLAYING twoCabinGame)"
  have up: "updatePhysics 10 PLAYING twoCabinGame = (?evs, ?g')" by simp
  have ne: "\<not> returnsEarly twoCabinGame" and ref: "fishInventoryRef twoCabinGame = 1"
    by (simp_all add: twoCabinGame_def start_defs tick_defs)
  have near: "filter (nearCabin (player ?g')) (decorations twoCabinGame) = decorations twoCabinGame"
    by (simp add: twoCabinGame_def start_defs tick_defs nearCabin_def)
  have len: "length (decorations twoCabinGame) = 2"
    by (simp add: twoCabinGame_def)
  from inventory_snapshot_per_tick [of 10 PLAYING twoCabinGame ?evs ?g'] up
  have th: "p_fishInventory (player ?g') = fishInventoryRef twoCabinGame
    \<and> fishInventoryRef ?g' = fishInventoryRef twoCabinGame
    \<and> (\<not> returnsEarly twoCabinGame \<longrightarrow>
         decorations ?g' =
           map (\<lambda>dec. if nearCabin (player ?g') dec \<and> fishInventoryRef twoCabinGame > 0
                       then dec\<lparr>d_delivered := True\<rparr> else dec) (decorations twoCabinGame)
       \<and> deliveries ?evs =
           length (filter (\<lambda>dec. nearCabin (player ?g') dec \<and> fishInventoryRef twoCabinGame > 0)
                     (decorations twoCabinGame)))"
    by blast
  with ne ref near len
  have "deliveries ?evs = 2" by simp
  moreover have "map d_delivered (decorations ?g') = [True, True]"
    by (simp add: twoCabinGame_def start_defs tick_defs nearCabin_def)
  ultimately show ?thesis using th ne ref near len by simp
qed

section \<open>Picking up a fish\<close>

text \<open>
  C6, as the claim states it, fails: the collect event is applied whatever the inventory is.
  With a full inventory (3) and an empty grill, the frame that picks up the fish emits the
  collect event, and afterwards the first grill slot is cooking and the inventory is still 3.
\<close>

theorem full_inventory_counterexample:
  "fishInventory (app fullSys) = 3
   \<and> map_option fst (sysStep (Frame 10 rndHalf) fullSys) =
       Some [OnCollectFish, Audio (PlayPowerUp Fish), Audio (SetEmergencyMode True),
             OnScoreUpdate 10 (81 / 10) None 89]
   \<and> map_option (map g_isCooking \<circ> grillSlots \<circ> app \<circ> snd)
         (sysStep (Frame 10 rndHalf) fullSys) = Some [True, False, False]
   \<and> map_option (fishInventory \<circ> app \<circ> snd) (sysStep (Frame 10 rndHalf) fullSys) = Some 3"
  by (simp add: fullSys_def fishGame_def rndHalf_def start_defs tick_defs inPickupRange_iff
       gameLoop_def updateTerrain_def addTerrain_def cleanupTerrain_def spawnDecoration_def
       startGame_def initialApp_def emptySlots_def dispatch_def handleCollectFish_def
       handleScoreUpdate_def syncInventory_def)

text \<open>
  C6, amended. In a tick that does not return early, every uncollected power-up within the
  pickup radius of the player is marked collected, and one collect event is emitted for each
  fish among them. The collect event never changes the inventory, whatever its value: it
  puts a raw fish on the first grill slot that is not cooking, and when all slots are cooking
  it changes nothing (a silent drop).
\<close>

theorem fish_pickup:
  "(updatePhysics e gs g = (evs, g') \<and> \<not> returnsEarly g \<longrightarrow>
      powerUps g' =
        map (\<lambda>pu. if pickedUp (player g') pu then pu\<lparr>pu_collected := True\<rparr> else pu)
          (powerUps g)
    \<and> collects evs =
        length (filter (\<lambda>pu. pickedUp (player g') pu \<and> pu_type pu = Fish) (powerUps g)))
 \<and> fishInventory (handleCollectFish a) = fishInventory a
 \<and> ((\<forall>sl \<in> set (grillSlots a). g_isCooking sl) \<longrightarrow> handleCollectFish a = a)
 \<and> (\<not> (\<forall>sl \<in> set (grillSlots a). g_isCooking sl) \<longrightarrow>
      (\<exists>i < length (grillSlots a).
          \<not> g_isCooking (grillSlots a ! i) \<and> (\<forall>j < i. g_isCooking (grillSlots a ! j))
        \<and> grillSlots (handleCollectFish a) =
            (grillSlots a)[i := (grillSlots a ! i)\<lparr>g_isCooking := True, g_progress := 0,
                                                  g_state := Raw\<rparr>]))"
  using updatePhysics_entities [of e gs g evs g'] handleCollectFish_cases [of a]
  by blast

theorem fish_pickup_witness:
  "\<not> returnsEarly fishGame
 \<and> map (pickedUp (player (snd (updatePhysics 10 PLAYING fishGame)))) (powerUps fishGame) = [True]
 \<and> map pu_collected (powerUps (snd (updatePhysics 10 PLAYING fishGame))) = [True]
 \<and> collects (fst (updatePhysics 10 PLAYING fishGame)) = 1
 \<and> fishInventory (handleCollectFish (app fullSys)) = 3
 \<and> map g_isCooking (grillSlots (handleCollectFish (app fullSys))) = [True, False, False]
 \<and> handleCollectFish busyApp = busyApp"
proof -
  let ?g' = "snd (updatePhysics 10 PLAYING fishGame)"
  let ?evs = "fst (updatePhysics 10 PLAYING fishGame)"
  have up: "updatePhysics 10 PLAYING fishGame = (?evs, ?g')" by simp
  have ne: "\<not> returnsEarly fishGame"
    by (simp add: fishGame_def start_defs tick_defs)
  have pk: "map (pickedUp (player ?g')) (powerUps fishGame) = [True]"
    by (simp add: fishGame_def start_defs tick_defs pickedUp_def inPickupRange_iff)
  have ty: "map pu_type (powerUps fishGame) = [Fish]"
    by (simp add: fishGame_def)
  from fish_pickup [of 10 PLAYING fishGame ?evs ?g'] up ne
  have th: "powerUps ?g' =
        map (\<lambda>pu. if pickedUp (player ?g') pu then pu\<lparr>pu_collected := True\<rparr> else pu)
          (powerUps fishGame)
    \<and> collects ?evs =
        length (filter (\<lambda>pu. pickedUp (player ?g') pu \<and> pu_type pu = Fish) (powerUps fishGame))"
    by blast
  obtain pu where pus: "powerUps fishGame = [pu]"
    by (simp add: fishGame_def)
  with pk ty th have c: "map pu_collected (powerUps ?g') = [True]" and n: "collects ?evs = 1"
    by simp_all
  have busy: "\<forall>sl \<in> set (grillSlots busyApp). g_isCooking sl"
    by (simp add: busyApp_def emptySlots_def)
  with fish_pickup [of 10 PLAYING fishGame ?evs ?g' busyApp]
  have b: "handleCollectFish busyApp = busyApp" by blast
  have "fishInventory (handleCollectFish (app fullSys)) = 3"
    and "map g_isCooking (grillSlots (handleCollectFish (app fullSys))) = [True, False, False]"
    by (simp_all add: fullSys_def startGame_def initialApp_def emptySlots_def
          handleCollectFish_def)
  with ne pk c n b show ?thesis by simp
qed

section \<open>The landing judgement\<close>

lemma fmod_props:
  assumes "0 < b"
  shows "\<exists>k::int. fmod a b = a - b * of_int k \<and> - b < fmod a b \<and> fmod a b < b"
proof (cases "0 \<le> a / b")
  case True
  let ?k = "\<lfloor>a / b\<rfloor>"
  have f: "fmod a b = a - b * of_int ?k"
    using True by (simp add: fmod_def trunc_def)
  have "of_int ?k * b \<le> a"
    using of_int_floor_le [of "a / b"] by (simp only: pos_le_divide_eq [OF assms])
  moreover have "a < (of_int ?k + 1) * b"
    using real_of_int_floor_add_one_gt [of "a / b"] by (simp only: pos_divide_less_eq [OF assms])
  ultimately have "of_int ?k * b \<le> a" and "a < (of_int ?k + 1) * b"
    by blast+
  then have "0 \<le> a - b * of_int ?k" and "a - b * of_int ?k < b"
    by (simp_all add: algebra_simps)
  with f assms show ?thesis by (intro exI [of _ ?k]) simp
next
  case False
  let ?k = "\<lceil>a / b\<rceil>"
  have f: "fmod a b = a - b * of_int ?k"
    using False by (simp add: fmod_def trunc_def)
  have "a \<le> of_int ?k * b"
    using le_of_int_ceiling [of "a / b"] by (simp only: pos_divide_le_eq [OF assms])
  moreover have "of_int ?k - 1 < a / b"
    using ceiling_correct [of "a / b"] by blast
  then have "(of_int ?k - 1) * b < a"
    by (simp only: pos_less_divide_eq [OF assms])
  ultimately have "a \<le> of_int ?k * b" and "(of_int ?k - 1) * b < a"
    by blast+
  then have "a - b * of_int ?k \<le> 0" and "- b < a - b * of_int ?k"
    by (simp_all add: algebra_simps)
  with f assms show ?thesis by (intro exI [of _ ?k]) simp
qed

lemma normRot_props:
  "\<exists>k::int. normRot r = r - 2 * pi * of_int k \<and> - pi \<le> normRot r \<and> normRot r \<le> pi"
proof -
  have "0 < pi * 2" by simp
  from fmod_props [OF this, of r] obtain k :: int where
    k: "fmod r (pi * 2) = r - pi * 2 * of_int k"
    and lo: "- (pi * 2) < fmod r (pi * 2)" and hi: "fmod r (pi * 2) < pi * 2"
    by blast
  let ?n1 = "fmod r (pi * 2)"
  show ?thesis
  proof (cases "?n1 > pi")
    case True
    then have "normRot r = ?n1 - pi * 2"
      using hi by (simp add: normRot_def Let_def)
    with k True hi show ?thesis
      by (intro exI [of _ "k + 1"]) (simp add: algebra_simps)
  next
    case False
    show ?thesis
    proof (cases "?n1 < - pi")
      case True
      then have "normRot r = ?n1 + pi * 2"
        using False by (simp add: normRot_def Let_def)
      with k True lo show ?thesis
        by (intro exI [of _ "k - 1"]) (simp add: algebra_simps)
    next
      case nlt: False
      then have "normRot r = ?n1"
        using False by (simp add: normRot_def Let_def)
      with k False nlt show ?thesis
        by (intro exI [of _ k]) (simp add: algebra_simps)
    qed
  qed
qed

lemma normalize_spec_unique:
  assumes "n = r - 2 * pi * of_int (k::int)" and "- pi < n" and "n \<le> pi"
  shows "normalize_spec r = n"
proof -
  have "\<lceil>(r - pi) / (2 * pi)\<rceil> = k"
  proof (rule ceiling_unique)
    have "2 * pi * (of_int k - 1) < r - pi" using assms by (simp add: algebra_simps)
    then show "of_int k - 1 < (r - pi) / (2 * pi)"
      by (simp add: field_simps)
    have "r - pi \<le> 2 * pi * of_int k" using assms by (simp add: algebra_simps)
    then show "(r - pi) / (2 * pi) \<le> of_int k"
      by (simp add: field_simps)
  qed
  with assms show ?thesis by (simp add: normalize_spec_def)
qed

lemma normalize_spec_range: "- pi < normalize_spec r \<and> normalize_spec r \<le> pi"
proof -
  let ?c = "\<lceil>(r - pi) / (2 * pi)\<rceil>"
  have tp: "0 < 2 * pi" by simp
  have "r - pi \<le> of_int ?c * (2 * pi)"
    using le_of_int_ceiling [of "(r - pi) / (2 * pi)"] by (simp only: pos_divide_le_eq [OF tp])
  moreover have "of_int ?c - 1 < (r - pi) / (2 * pi)"
    using ceiling_correct [of "(r - pi) / (2 * pi)"] by blast
  then have "(of_int ?c - 1) * (2 * pi) < r - pi"
    by (simp only: pos_less_divide_eq [OF tp])
  ultimately have "r - pi \<le> of_int ?c * (2 * pi)" and "(of_int ?c - 1) * (2 * pi) < r - pi"
    by blast+
  then show ?thesis by (simp add: normalize_spec_def algebra_simps)
qed

lemma normRot_spec:
  "normRot r = normalize_spec r \<or> (normRot r = - pi \<and> normalize_spec r = pi)"
proof -
  from normRot_props [of r] obtain k :: int where
    k: "normRot r = r - 2 * pi * of_int k" and lo: "- pi \<le> normRot r" and hi: "normRot r \<le> pi"
    by blast
  show ?thesis
  proof (cases "normRot r = - pi")
    case True
    have "pi = r - 2 * pi * of_int (k - 1)"
      using k True by (simp add: algebra_simps)
    from normalize_spec_unique [OF this] have "normalize_spec r = pi" by simp
    with True show ?thesis by simp
  next
    case False
    with lo have "- pi < normRot r" by simp
    from normalize_spec_unique [OF k this hi] show ?thesis by simp
  qed
qed

lemma getGroundY_angle: "\<bar>snd (getGroundY t x)\<bar> < pi / 2"
proof (induction t x rule: getGroundY.induct)
  case (1 p1 p2 t x)
  show ?case
  proof (cases "x \<ge> pt_x p1 \<and> x < pt_x p2")
    case True
    then have "0 < pt_x p2 - pt_x p1" by simp
    then have "snd (getGroundY (p1 # p2 # t) x) = arctan ((pt_y p2 - pt_y p1) / (pt_x p2 - pt_x p1))"
      using True by (simp add: atan2_def Let_def)
    then show ?thesis
      using arctan_lbound [of "(pt_y p2 - pt_y p1) / (pt_x p2 - pt_x p1)"]
        arctan_ubound [of "(pt_y p2 - pt_y p1) / (pt_x p2 - pt_x p1)"]
      by (simp add: abs_less_iff)
  next
    case False
    with 1 show ?thesis by auto
  qed
qed simp_all

lemma angleDiff_thresholds:
  assumes "\<bar>a\<bar> < pi / 2"
  shows "(\<bar>normRot r - a\<bar> > CRASH_THRESHOLD \<longleftrightarrow> \<bar>normalize_spec r - a\<bar> > CRASH_THRESHOLD)
       \<and> (\<bar>normRot r - a\<bar> < PERFECT_THRESHOLD \<longleftrightarrow> \<bar>normalize_spec r - a\<bar> < PERFECT_THRESHOLD)"
proof -
  have c: "CRASH_THRESHOLD < pi / 2" and p: "PERFECT_THRESHOLD < pi / 2"
    by (simp_all add: CRASH_THRESHOLD_def PERFECT_THRESHOLD_def)
  from normRot_spec [of r] show ?thesis
  proof
    assume "normRot r = normalize_spec r"
    then show ?thesis by simp
  next
    assume e: "normRot r = - pi \<and> normalize_spec r = pi"
    from assms pi_gt_zero have "\<bar>- pi - a\<bar> > pi / 2" and "\<bar>pi - a\<bar> > pi / 2"
      by linarith+
    with e c p show ?thesis by simp
  qed
qed


lemma landing_by_spec:
  assumes "\<bar>a\<bar> < pi / 2"
  shows "landing a p sh =
     (let d = angularDifference (p_rotation p) a
      in if d > CRASH_THRESHOLD \<and> p_invincibleTimer p \<le> 0 then
           ([Audio PlayCrash], p\<lparr>p_vx := 2, p_rotation := a\<rparr>, 25)
         else if p_backflipCount p > 0 then
           (if d < PERFECT_THRESHOLD then
              ([Audio PlayCheer],
               p\<lparr>p_boostTimer := 60 + p_backflipCount p * 30,
                 p_score := p_score p + p_backflipCount p * 300\<rparr>, sh)
            else ([], p\<lparr>p_score := p_score p + p_backflipCount p * 150\<rparr>, sh))
         else ([], p, sh))"
  using angleDiff_thresholds [OF assms, of "p_rotation p"]
  by (simp add: landing_def angularDifference_def Let_def)

lemma normalize_spec_congruent:
  "\<exists>k::int. normalize_spec r = r - 2 * pi * of_int k"
  by (auto simp: normalize_spec_def)

lemma landing_contact:
  assumes "touchesFloor p (fst gr)" and "\<not> p_isGrounded p"
    and "floorCollision holding gr p shake = (ev, p', shake')"
    and "landing (snd gr) p shake = (ev0, q, sh0)"
  shows "ev = ev0 \<and> shake' = sh0 \<and> p_vx p' = p_vx q \<and> p_score p' = p_score q
       \<and> p_boostTimer p' = p_boostTimer q \<and> p_rotation p' = snd gr \<and> p_isGrounded p'
       \<and> p_backflipCount p' = 0 \<and> p_vy p' = 0 \<and> p_y p' = collisionThreshold p (fst gr)"
  using assms by (auto simp: floorCollision_def Let_def)

text \<open>
  C3. On a new ground contact (the player touches the floor threshold and was not grounded),
  the landing is judged by the absolute difference \<open>d\<close> between the rotation, normalized to
  \<open>(-\<pi>, \<pi>]\<close>, and the ground angle at the player's position, against two fixed thresholds:
  the landing is a crash (crash sound, horizontal speed 2, camera shake 25, no bonus) exactly
  when \<open>d\<close> exceeds 70 degrees and the player is not invincible. Otherwise speed and shake are
  untouched, and with at least one counted rotation a bonus is scored: 300 per rotation with
  a boost timer of 60 + 30 per rotation exactly when \<open>d\<close> is strictly below 30 degrees, and
  150 per rotation with no boost otherwise; without a counted rotation nothing is scored. At
  \<open>d\<close> = 70 degrees there is no crash, at \<open>d\<close> = 30 degrees the landing is not perfect. In
  every case the player ends grounded, aligned with the ground, with the rotation count 0.
\<close>

theorem landing_classification:
  assumes "touchesFloor p (fst (getGroundY t x))" and "\<not> p_isGrounded p"
    and "floorCollision holding (getGroundY t x) p shake = (ev, p', shake')"
    and "d = angularDifference (p_rotation p) (snd (getGroundY t x))"
  shows "(d > CRASH_THRESHOLD \<and> p_invincibleTimer p \<le> 0 \<longrightarrow>
            ev = [Audio PlayCrash] \<and> p_vx p' = 2 \<and> shake' = 25
          \<and> p_score p' = p_score p \<and> p_boostTimer p' = p_boostTimer p)
       \<and> (\<not> (d > CRASH_THRESHOLD \<and> p_invincibleTimer p \<le> 0) \<longrightarrow>
            p_vx p' = p_vx p \<and> shake' = shake
          \<and> (p_backflipCount p \<ge> 1 \<and> d < PERFECT_THRESHOLD \<longrightarrow>
                ev = [Audio PlayCheer] \<and> p_score p' = p_score p + p_backflipCount p * 300
              \<and> p_boostTimer p' = 60 + p_backflipCount p * 30)
          \<and> (p_backflipCount p \<ge> 1 \<and> \<not> d < PERFECT_THRESHOLD \<longrightarrow>
                ev = [] \<and> p_score p' = p_score p + p_backflipCount p * 150
              \<and> p_boostTimer p' = p_boostTimer p)
          \<and> (p_backflipCount p < 1 \<longrightarrow>
                ev = [] \<and> p_score p' = p_score p \<and> p_boostTimer p' = p_boostTimer p))
       \<and> (d = CRASH_THRESHOLD \<longrightarrow> ev \<noteq> [Audio PlayCrash] \<and> p_vx p' = p_vx p \<and> shake' = shake)
       \<and> (d = PERFECT_THRESHOLD \<and> p_backflipCount p \<ge> 1 \<longrightarrow>
            ev = [] \<and> p_score p' = p_score p + p_backflipCount p * 150
          \<and> p_boostTimer p' = p_boostTimer p)
       \<and> - pi < normalize_spec (p_rotation p) \<and> normalize_spec (p_rotation p) \<le> pi
       \<and> (\<exists>k::int. normalize_spec (p_rotation p) = p_rotation p - 2 * pi * of_int k)
       \<and> p_rotation p' = snd (getGroundY t x) \<and> p_isGrounded p' \<and> p_backflipCount p' = 0"
proof -
  let ?a = "snd (getGroundY t x)"
  have pc: "PERFECT_THRESHOLD < CRASH_THRESHOLD"
    by (simp add: PERFECT_THRESHOLD_def CRASH_THRESHOLD_def)
  obtain ev0 q sh0 where l: "landing ?a p shake = (ev0, q, sh0)"
    by (cases "landing ?a p shake") auto
  note ct = landing_contact [OF assms(1,2,3) l]
  note sp = landing_by_spec [OF getGroundY_angle [of t x], of p shake, unfolded l, folded assms(4)]
  have crash: "ev0 = [Audio PlayCrash] \<and> p_vx q = 2 \<and> sh0 = 25
          \<and> p_score q = p_score p \<and> p_boostTimer q = p_boostTimer p"
    if "d > CRASH_THRESHOLD" "p_invincibleTimer p \<le> 0"
    using sp that by (simp add: Let_def)
  have nocrash: "p_vx q = p_vx p \<and> sh0 = shake
          \<and> (p_backflipCount p \<ge> 1 \<and> d < PERFECT_THRESHOLD \<longrightarrow>
                ev0 = [Audio PlayCheer] \<and> p_score q = p_score p + p_backflipCount p * 300
              \<and> p_boostTimer q = 60 + p_backflipCount p * 30)
          \<and> (p_backflipCount p \<ge> 1 \<and> \<not> d < PERFECT_THRESHOLD \<longrightarrow>
                ev0 = [] \<and> p_score q = p_score p + p_backflipCount p * 150
              \<and> p_boostTimer q = p_boostTimer p)
          \<and> (p_backflipCount p < 1 \<longrightarrow>
                ev0 = [] \<and> p_score q = p_score p \<and> p_boostTimer q = p_boostTimer p)"
    if "\<not> (d > CRASH_THRESHOLD \<and> p_invincibleTimer p \<le> 0)"
    using sp that by (auto simp: Let_def split: if_splits)
  have b1: "ev0 \<noteq> [Audio PlayCrash] \<and> p_vx q = p_vx p \<and> sh0 = shake" if "d = CRASH_THRESHOLD"
    using sp that by (auto simp: Let_def split: if_splits)
  have b2: "ev0 = [] \<and> p_score q = p_score p + p_backflipCount p * 150
          \<and> p_boostTimer q = p_boostTimer p"
    if "d = PERFECT_THRESHOLD" "p_backflipCount p \<ge> 1"
    using sp that pc by (auto simp: Let_def split: if_splits)
  show ?thesis
    using crash nocrash b1 b2 ct normalize_spec_range [of "p_rotation p"]
      normalize_spec_congruent [of "p_rotation p"]
    by (simp only:) blast
qed


lemma normalize_spec_id: "- pi < r \<Longrightarrow> r \<le> pi \<Longrightarrow> normalize_spec r = r"
  using normalize_spec_unique [of r r 0] by simp

theorem landing_classification_witness:
  "angularDifference CRASH_THRESHOLD (snd (getGroundY flatTerrain 20)) = CRASH_THRESHOLD
 \<and> p_vx (fst (snd (landed CRASH_THRESHOLD 1))) = p_vx (landingPlayer CRASH_THRESHOLD 1)
 \<and> p_score (fst (snd (landed CRASH_THRESHOLD 1))) = 150
 \<and> angularDifference (pi / 2) (snd (getGroundY flatTerrain 20)) > CRASH_THRESHOLD
 \<and> fst (landed (pi / 2) 1) = [Audio PlayCrash]
 \<and> p_vx (fst (snd (landed (pi / 2) 1))) = 2
 \<and> angularDifference 0 (snd (getGroundY flatTerrain 20)) < PERFECT_THRESHOLD
 \<and> p_score (fst (snd (landed 0 2))) = 600
 \<and> p_boostTimer (fst (snd (landed 0 2))) = 120
 \<and> angularDifference PERFECT_THRESHOLD (snd (getGroundY flatTerrain 20)) = PERFECT_THRESHOLD
 \<and> p_score (fst (snd (landed PERFECT_THRESHOLD 1))) = 150
 \<and> p_boostTimer (fst (snd (landed PERFECT_THRESHOLD 1))) = 0"
proof -
  have gr: "getGroundY flatTerrain 20 = (300, 0)"
    by (simp add: flatTerrain_def atan2_def)
  have pl: "touchesFloor (landingPlayer rot n) (fst (getGroundY flatTerrain 20))"
    "\<not> p_isGrounded (landingPlayer rot n)" "p_invincibleTimer (landingPlayer rot n) = 0"
    "p_backflipCount (landingPlayer rot n) = n" "p_rotation (landingPlayer rot n) = rot"
    "p_score (landingPlayer rot n) = 0" "p_boostTimer (landingPlayer rot n) = 0" for rot n
    by (simp_all add: gr landingPlayer_def start_defs touchesFloor_def collisionThreshold_def)
  have fc: "floorCollision False (getGroundY flatTerrain 20) (landingPlayer rot n) 0 =
      (fst (landed rot n), fst (snd (landed rot n)), snd (snd (landed rot n)))" for rot n
    by (simp add: landed_def)
  note th = landing_classification [OF pl(1,2) fc refl, unfolded pl]
  have d1: "angularDifference CRASH_THRESHOLD (snd (getGroundY flatTerrain 20)) = CRASH_THRESHOLD"
    and d2: "angularDifference (pi / 2) (snd (getGroundY flatTerrain 20)) = pi / 2"
    and d3: "angularDifference 0 (snd (getGroundY flatTerrain 20)) = 0"
    and d4: "angularDifference PERFECT_THRESHOLD (snd (getGroundY flatTerrain 20)) = PERFECT_THRESHOLD"
    by (simp_all add: gr angularDifference_def normalize_spec_id CRASH_THRESHOLD_def
          PERFECT_THRESHOLD_def)
  have c: "CRASH_THRESHOLD < pi / 2" and p: "0 < PERFECT_THRESHOLD"
    and pc: "PERFECT_THRESHOLD < CRASH_THRESHOLD"
    by (simp_all add: CRASH_THRESHOLD_def PERFECT_THRESHOLD_def)
  from th [of CRASH_THRESHOLD 1] d1 pc
  have w1: "p_vx (fst (snd (landed CRASH_THRESHOLD 1))) = p_vx (landingPlayer CRASH_THRESHOLD 1)
      \<and> p_score (fst (snd (landed CRASH_THRESHOLD 1))) = 150"
    by simp
  from th [of "pi / 2" 1] d2 c
  have w2: "fst (landed (pi / 2) 1) = [Audio PlayCrash] \<and> p_vx (fst (snd (landed (pi / 2) 1))) = 2"
    by simp
  from th [of 0 2] d3 p pc
  have w3: "p_score (fst (snd (landed 0 2))) = 600 \<and> p_boostTimer (fst (snd (landed 0 2))) = 120"
    by simp
  from th [of PERFECT_THRESHOLD 1] d4 pc
  have w4: "p_score (fst (snd (landed PERFECT_THRESHOLD 1))) = 150
      \<and> p_boostTimer (fst (snd (landed PERFECT_THRESHOLD 1))) = 0"
    by simp
  from d1 d2 d3 d4 c p w1 w2 w3 w4 show ?thesis by simp
qed


section \<open>The avalanche boundary\<close>

lemma avTargetSpeed_ge:
  "0 \<le> e \<Longrightarrow> 9 \<le> avTargetSpeed e"
  unfolding avTargetSpeed_def Let_def by (auto simp: field_simps)


lemma gravityAssist_vx_pos: "0 < p_vx p \<Longrightarrow> 0 < p_vx (gravityAssist p)"
  by (simp add: gravityAssist_def FRICTION_def)

lemma integrate_motion:
  "p_x (integrate g) = p_x (player g) + p_vx (integrate g)"
  "p_isDead (integrate g) = p_isDead (player g)"
  "0 < p_vx (player g) \<Longrightarrow> 0 < p_vx (integrate g)"
proof -
  let ?q = "tickTimers ((player g)\<lparr>p_fishInventory := fishInventoryRef g\<rparr>)"
  have vx: "p_vx (integrate g) = p_vx (gravityAssist ?q)"
    by (simp add: integrate_def)
  show "p_x (integrate g) = p_x (player g) + p_vx (integrate g)"
    unfolding vx by (simp add: integrate_def)
  show "p_isDead (integrate g) = p_isDead (player g)"
    by (simp add: integrate_def)
  show "0 < p_vx (integrate g)" if "0 < p_vx (player g)"
    unfolding vx using that gravityAssist_vx_pos [of ?q] by simp
qed

lemma sameCourse_vx_pos: "sameCourse p q \<Longrightarrow> 0 < p_vx p \<Longrightarrow> 0 < p_vx q"
  by (auto simp: sameCourse_def)

lemma avalancheLogic_course:
  assumes "avalancheLogic e gs avX p = (ev, av, p1)"
  shows "p_x p1 = p_x p \<and> p_vx p1 = p_vx p \<and> p_invincibleTimer p1 = p_invincibleTimer p
       \<and> p_flightTimer p1 = p_flightTimer p \<and> p_fishInventory p1 = p_fishInventory p"
  using assms by (auto simp: avalancheLogic_eq Let_def split: if_splits)

lemma avalancheLogic_death:
  assumes "avalancheLogic e PLAYING avX p = (ev, av, p1)"
  shows "av = min (avX + avalancheAdvance e p) (p_x p + 100)
       \<and> (av > p_x p - 30 \<longrightarrow> p_isDead p1 \<and> ev = [OnGameOver \<lfloor>p_x p / 10\<rfloor>])
       \<and> (\<not> av > p_x p - 30 \<longrightarrow> p_isDead p1 = p_isDead p \<and> ev = [])"
  using assms by (auto simp: avalancheLogic_eq Let_def split: if_splits)

text \<open>The tick, as far as position, speed, avalanche and death are concerned.\<close>

lemma updatePhysics_chase:
  assumes "updatePhysics e PLAYING g = (evs, g')"
  shows "p_x (player g') = p_x (player g) + p_vx (integrate g)"
    and "0 < p_vx (player g) \<Longrightarrow> 0 < p_vx (integrate g) \<and> 0 < p_vx (player g')"
    and "p_vx (player g') = p_vx (integrate g) \<or> p_vx (player g') = 2"
    and "returnsEarly g \<Longrightarrow> evs = [] \<and> avalancheX g' = avalancheX g
           \<and> p_isDead (player g') = p_isDead (player g)"
    and "\<not> returnsEarly g \<Longrightarrow>
           avalancheX g' = min (avalancheX g + (avTargetSpeed e
               - (if p_invincibleTimer (player g') > 0 then 2 else 0))) (p_x (player g') + 100)
         \<and> (avalancheX g' > p_x (player g') - 30 \<longrightarrow>
              p_isDead (player g') \<and> filter isGameOver evs = [OnGameOver \<lfloor>p_x (player g') / 10\<rfloor>])
         \<and> (\<not> avalancheX g' > p_x (player g') - 30 \<longrightarrow>
              p_isDead (player g') = p_isDead (player g) \<and> filter isGameOver evs = [])"
proof -
  have all: "p_x (player g') = p_x (player g) + p_vx (integrate g)
    \<and> (p_vx (player g') = p_vx (integrate g) \<or> p_vx (player g') = 2)
    \<and> (returnsEarly g \<longrightarrow> evs = [] \<and> avalancheX g' = avalancheX g
           \<and> p_isDead (player g') = p_isDead (player g))
    \<and> (\<not> returnsEarly g \<longrightarrow>
           avalancheX g' = min (avalancheX g + (avTargetSpeed e
               - (if p_invincibleTimer (player g') > 0 then 2 else 0))) (p_x (player g') + 100)
         \<and> (avalancheX g' > p_x (player g') - 30 \<longrightarrow>
              p_isDead (player g') \<and> filter isGameOver evs = [OnGameOver \<lfloor>p_x (player g') / 10\<rfloor>])
         \<and> (\<not> avalancheX g' > p_x (player g') - 30 \<longrightarrow>
              p_isDead (player g') = p_isDead (player g) \<and> filter isGameOver evs = []))"
  proof (cases "returnsEarly g")
    case True
    from updatePhysics_early [OF True, of e PLAYING] assms
    have "evs = []" and "g' = g\<lparr>player := (integrate g)\<lparr>p_y := collisionThreshold (integrate g)
                (fst (getGroundY (terrain g) (p_x (integrate g)))), p_vy := 0\<rparr>\<rparr>"
      by simp_all
    then show ?thesis using True integrate_motion(1,2) [of g] by simp
  next
    case False
    from False assms obtain ev1 p1 shake1 ev2 obss p2 shake2 ev3 decs p3 ev4 pus p4 ev5 avX p5
      where st:
      "floorCollision (isHolding g) (getGroundY (terrain g) (p_x (integrate g))) (integrate g)
         (cameraShake g) = (ev1, p1, shake1)"
      "obstacleCollision (terrain g) (obstacles g) p1 shake1 = (ev2, obss, p2, shake2)"
      "cabinLoop (decorations g) p2 = (ev3, decs, p3)"
      "powerUpLoop (powerUps g) p3 = (ev4, pus, p4)"
      "avalancheLogic e PLAYING (avalancheX g) p4 = (ev5, avX, p5)"
      and res: "evs = ev1 @ ev2 @ ev3 @ ev4 @ ev5 @ hudUpdate avX p5"
      "g' = g\<lparr>player := p5, obstacles := obss, decorations := decs, powerUps := pus,
               cameraShake := shake2, avalancheX := avX\<rparr>"
      by (rule updatePhysics_normalE)
    note c1 = floorCollision_course [OF st(1)] and c2 = obstacleCollision_course [OF st(2)]
      and c3 = cabinLoop_course [OF st(3)] and c4 = powerUpLoop_course [OF st(4)]
      and c5 = avalancheLogic_course [OF st(5)] and d = avalancheLogic_death [OF st(5)]
    have sc: "sameCourse (integrate g) p4"
      using c1 c2 c3 c4 sameCourse_trans by blast
    have x5: "p_x p5 = p_x (integrate g)" and i5: "p_invincibleTimer p5 = p_invincibleTimer p4"
      and vx5: "p_vx p5 = p_vx (integrate g) \<or> p_vx p5 = 2"
      and dead4: "p_isDead p4 = p_isDead (player g)"
      using sc c5 integrate_motion(2) [of g] by (auto simp: sameCourse_def)
    have x4: "p_x p4 = p_x p5" using c5 by simp
    have go: "filter isGameOver evs = filter isGameOver ev5"
      unfolding res(1)
      using floorCollision_score [OF st(1)] obstacleCollision_score [OF st(2)]
        cabinLoop_score [OF st(3)] powerUpLoop_score [OF st(4)] hudUpdate_score [of avX p5]
      by simp
    have pl: "player g' = p5" "avalancheX g' = avX" using res(2) by simp_all
    have adv: "avalancheAdvance e p4 =
        avTargetSpeed e - (if p_invincibleTimer p5 > 0 then 2 else 0)"
      by (simp add: avalancheAdvance_def i5)
    show ?thesis
      using False d dead4 unfolding pl go x4 adv
      using x5 vx5 integrate_motion(1) [of g] by auto
  qed
  from all show "p_x (player g') = p_x (player g) + p_vx (integrate g)" by blast
  from all show "p_vx (player g') = p_vx (integrate g) \<or> p_vx (player g') = 2" by blast
  from all show "returnsEarly g \<Longrightarrow> evs = [] \<and> avalancheX g' = avalancheX g
           \<and> p_isDead (player g') = p_isDead (player g)" by blast
  from all show "\<not> returnsEarly g \<Longrightarrow>
           avalancheX g' = min (avalancheX g + (avTargetSpeed e
               - (if p_invincibleTimer (player g') > 0 then 2 else 0))) (p_x (player g') + 100)
         \<and> (avalancheX g' > p_x (player g') - 30 \<longrightarrow>
              p_isDead (player g') \<and> filter isGameOver evs = [OnGameOver \<lfloor>p_x (player g') / 10\<rfloor>])
         \<and> (\<not> avalancheX g' > p_x (player g') - 30 \<longrightarrow>
              p_isDead (player g') = p_isDead (player g) \<and> filter isGameOver evs = [])" by blast
  show "0 < p_vx (integrate g) \<and> 0 < p_vx (player g')" if "0 < p_vx (player g)"
    using all integrate_motion(3) [OF that] by auto
qed


lemma addTerrain_keeps [simp]:
  "player (addTerrain r px g) = player g" "avalancheX (addTerrain r px g) = avalancheX g"
  "isHolding (addTerrain r px g) = isHolding g"
  "fishInventoryRef (addTerrain r px g) = fishInventoryRef g"
  by (simp_all add: addTerrain_def Let_def)

lemma cleanupTerrain_keeps [simp]:
  "player (cleanupTerrain px g) = player g" "avalancheX (cleanupTerrain px g) = avalancheX g"
  "isHolding (cleanupTerrain px g) = isHolding g"
  "fishInventoryRef (cleanupTerrain px g) = fishInventoryRef g"
  by (simp_all add: cleanupTerrain_def Let_def)

lemma updateTerrain_keeps:
  assumes "updateTerrain r px g = Some g1"
  shows "player g1 = player g" "avalancheX g1 = avalancheX g" "isHolding g1 = isHolding g"
    "fishInventoryRef g1 = fishInventoryRef g"
  using assms by (auto simp: updateTerrain_def split: if_splits)

lemma handleInputStart_keeps:
  assumes "handleInputStart cy rh gs g = (evs, g')"
  shows "p_x (player g') = p_x (player g)" "p_vx (player g') = p_vx (player g)"
    "avalancheX g' = avalancheX g" "p_isDead (player g') = p_isDead (player g)"
    "filter isGameOver evs = []" "terrain g' = terrain g"
  using assms by (auto simp: handleInputStart_def Let_def split: if_splits)

lemma updatePhysics_chaseInv:
  assumes "updatePhysics e PLAYING g = (evs, g')" and "chaseInv g"
  shows "chaseInv g'"
    and "0 \<le> e \<Longrightarrow> avalancheX g \<le> avalancheX g'"
proof -
  from assms(2) have vx: "0 < p_vx (player g)" and av: "avalancheX g \<le> p_x (player g) + 100"
    by (simp_all add: chaseInv_def)
  note ch = updatePhysics_chase [OF assms(1)]
  from ch(2) [OF vx] have vi: "0 < p_vx (integrate g)" and v': "0 < p_vx (player g')" by simp_all
  from ch(1) vi have xg: "p_x (player g) < p_x (player g')" by simp
  show "chaseInv g'"
  proof (cases "returnsEarly g")
    case True
    with ch(4) av xg v' show ?thesis by (simp add: chaseInv_def)
  next
    case False
    with ch(5) v' show ?thesis by (simp add: chaseInv_def)
  qed
  show "avalancheX g \<le> avalancheX g'" if "0 \<le> e"
  proof (cases "returnsEarly g")
    case True
    with ch(4) show ?thesis by simp
  next
    case False
    from avTargetSpeed_ge [OF that]
    have "0 \<le> avTargetSpeed e - (if p_invincibleTimer (player g') > 0 then 2 else 0)"
      by simp
    with ch(5) [OF False] av xg show ?thesis by (simp add: min_def)
  qed
qed

lemma initGame_chaseInv: "chaseInv (initGame rs g)"
  by (simp add: chaseInv_def initGame_def BASE_SPEED_def)

lemma gameLoop_chaseInv:
  assumes "gameLoop e r gs g = Some (evs, g')" and "chaseInv g"
  shows "chaseInv g'" and "0 \<le> e \<Longrightarrow> avalancheX g \<le> avalancheX g'"
proof -
  have "chaseInv g' \<and> (0 \<le> e \<longrightarrow> avalancheX g \<le> avalancheX g')"
  proof (cases "gs = PLAYING")
    case False
    with assms show ?thesis by (simp add: gameLoop_def)
  next
    case True
    with assms(1) obtain g1 where ut: "updateTerrain r (p_x (player g)) g = Some g1"
      and up: "updatePhysics e PLAYING g1 = (evs, g')"
      by (auto simp: gameLoop_def split: option.splits)
    from updateTerrain_keeps [OF ut] assms(2) have c1: "chaseInv g1"
      and a1: "avalancheX g1 = avalancheX g"
      by (simp_all add: chaseInv_def)
    from updatePhysics_chaseInv [OF up c1] a1 show ?thesis by simp
  qed
  then show "chaseInv g'" and "0 \<le> e \<Longrightarrow> avalancheX g \<le> avalancheX g'" by simp_all
qed

lemma sysStep_chaseInv:
  assumes "sysStep i s = Some (evs, s')" and "chaseInv (game s)"
  shows "chaseInv (game s')"
proof (cases i)
  case (ClickStart rs)
  with assms(1) show ?thesis
    by (auto simp: syncInventory_def chaseInv_def initGame_def BASE_SPEED_def split: option.splits if_splits)
next
  case (Frame e r)
  with assms(1) obtain g' where gl: "gameLoop e r (gameState (app s)) (game s) = Some (evs, g')"
    and s': "s' = syncInventory \<lparr>app = dispatch evs (app s), game = g'\<rparr>"
    by (auto split: option.splits)
  from gameLoop_chaseInv(1) [OF gl assms(2)] s' show ?thesis
    by (simp add: syncInventory_def chaseInv_def)
next
  case (PointerDown cy rh)
  with assms(1) obtain g' where h: "handleInputStart cy rh (gameState (app s)) (game s) = (evs, g')"
    and s': "s' = s\<lparr>game := g'\<rparr>"
    by (auto split: prod.splits)
  from handleInputStart_keeps [OF h] assms(2) s' show ?thesis by (simp add: chaseInv_def)
next
  case PointerUp
  with assms show ?thesis by (auto simp: handleInputEnd_def chaseInv_def)
next
  case (TapSlot n)
  with assms show ?thesis by (auto simp: syncInventory_def chaseInv_def split: option.splits)
next
  case CookInterval
  with assms show ?thesis by (auto split: option.splits)
next
  case ClickMute
  with assms show ?thesis by (auto split: option.splits)
qed

lemma sysRun_chaseInv:
  assumes "sysRun ins s = Some (evs, s')" and "chaseInv (game s)"
  shows "chaseInv (game s')"
  using assms
proof (induction ins arbitrary: s evs)
  case Nil
  then show ?case by simp
next
  case (Cons i ins)
  from Cons.prems(1) obtain ev1 s1 ev2 where st: "sysStep i s = Some (ev1, s1)"
    and rest: "sysRun ins s1 = Some (ev2, s')"
    by (auto split: option.splits prod.splits)
  from Cons.IH [OF rest sysStep_chaseInv [OF st Cons.prems(2)]] show ?case .
qed

lemma initialSys_chaseInv: "chaseInv (game initialSys)"
  by (simp add: initialSys_def initialGame_def chaseInv_def BASE_SPEED_def)

lemma sysStep_avalanche:
  assumes "sysStep i s = Some (evs, s')" and "chaseInv (game s)" and "\<not> isStart i"
    and "\<forall>e r. i = Frame e r \<longrightarrow> 0 \<le> e"
  shows "avalancheX (game s) \<le> avalancheX (game s')"
proof (cases i)
  case (ClickStart rs)
  with assms(3) show ?thesis by simp
next
  case (Frame e r)
  with assms(1) obtain g' where gl: "gameLoop e r (gameState (app s)) (game s) = Some (evs, g')"
    and s': "s' = syncInventory \<lparr>app = dispatch evs (app s), game = g'\<rparr>"
    by (auto split: option.splits)
  from Frame assms(4) have "0 \<le> e" by simp
  from gameLoop_chaseInv(2) [OF gl assms(2) this] s' show ?thesis
    by (simp add: syncInventory_def)
next
  case (PointerDown cy rh)
  with assms(1) obtain g' where h: "handleInputStart cy rh (gameState (app s)) (game s) = (evs, g')"
    and s': "s' = s\<lparr>game := g'\<rparr>"
    by (auto split: prod.splits)
  from handleInputStart_keeps [OF h] s' show ?thesis by simp
next
  case PointerUp
  with assms show ?thesis by (auto simp: handleInputEnd_def)
next
  case (TapSlot n)
  with assms show ?thesis by (auto simp: syncInventory_def split: option.splits)
next
  case CookInterval
  with assms show ?thesis by (auto split: option.splits)
next
  case ClickMute
  with assms show ?thesis by (auto split: option.splits)
qed

text \<open>
  C1, as the claim states it, fails: a tick can move the boundary back. The tick adds to the
  boundary the target speed for the elapsed time that it reads from the wall clock, and
  nothing keeps that time, or the speed, from being negative. Right after the start, a frame
  that reads -100 seconds has the target speed 9 - 15 = -6 and moves the boundary from -800
  to -806, with the player alive and the game still on.
\<close>

theorem avalanche_retreat_counterexample:
  "sysStep startClick initialSys = Some ([], startedSys)
   \<and> avalancheX (game startedSys) = - 800
   \<and> map_option (avalancheX \<circ> game \<circ> snd) (sysStep lateFrame startedSys) = Some (- 806)
   \<and> map_option (p_isDead \<circ> player \<circ> game \<circ> snd) (sysStep lateFrame startedSys) = Some False
   \<and> map_option (gameState \<circ> app \<circ> snd) (sysStep lateFrame startedSys) = Some PLAYING"
  by (simp add: startClick_def lateFrame_def initialSys_def startedSys_def rndHalf_def
       start_defs tick_defs gameLoop_def updateTerrain_def addTerrain_def cleanupTerrain_def
       spawnDecoration_def startGame_def initialApp_def emptySlots_def dispatch_def
       handleScoreUpdate_def syncInventory_def)

text \<open>
  C1, amended. In every state that the program reaches from its initial state, after every
  input (every tick, whatever the clock reads) the avalanche boundary is at most 100 ahead of
  the player; and every tick that reads a non-negative elapsed time from the clock, as well
  as every other input but a new start, leaves the boundary where it was or moves it forward.
\<close>

theorem avalanche_clamped_monotone:
  assumes "sysRun ins initialSys = Some (evs0, s)"
    and "sysStep i s = Some (evs, s')"
  shows "avalancheX (game s') \<le> p_x (player (game s')) + 100
       \<and> (\<not> isStart i \<and> (\<forall>e r. i = Frame e r \<longrightarrow> 0 \<le> e)
            \<longrightarrow> avalancheX (game s) \<le> avalancheX (game s'))"
proof -
  from sysRun_chaseInv [OF assms(1) initialSys_chaseInv] have c: "chaseInv (game s)" .
  from sysStep_chaseInv [OF assms(2) c]
  have "avalancheX (game s') \<le> p_x (player (game s')) + 100" by (simp add: chaseInv_def)
  moreover have "avalancheX (game s) \<le> avalancheX (game s')"
    if "\<not> isStart i" and "\<forall>e r. i = Frame e r \<longrightarrow> 0 \<le> e"
    by (rule sysStep_avalanche [OF assms(2) c that])
  ultimately show ?thesis by blast
qed

lemma startedSys_reached:
  "sysRun [ClickStart (\<lambda>k. 1 / 2)] initialSys = Some ([], startedSys)"
  by (simp add: initialSys_def startedSys_def startedGame_def syncInventory_def initialApp_def
      startGame_def initGame_def initialGame_def)

lemma firstFrame: "\<exists>evs s'. sysStep (Frame 10 rndHalf) startedSys = Some (evs, s')"
  by (simp add: startedSys_def gameLoop_def updateTerrain_def startGame_def start_defs
       GAME_WIDTH_def TERRAIN_SEGMENT_WIDTH_def split: prod.splits)

lemma lateFrame_runs: "\<exists>evs s'. sysStep lateFrame startedSys = Some (evs, s')"
  by (simp add: lateFrame_def startedSys_def gameLoop_def updateTerrain_def startGame_def
       start_defs GAME_WIDTH_def TERRAIN_SEGMENT_WIDTH_def split: prod.splits)

theorem avalanche_clamped_monotone_witness:
  "sysRun [ClickStart (\<lambda>k. 1 / 2)] initialSys = Some ([], startedSys)
 \<and> avalancheX (game startedSys) = - 800
 \<and> (\<exists>evs s'. sysStep (Frame 10 rndHalf) startedSys = Some (evs, s')
       \<and> avalancheX (game startedSys) \<le> avalancheX (game s')
       \<and> avalancheX (game s') \<le> p_x (player (game s')) + 100)
 \<and> (\<exists>evs s'. sysStep lateFrame startedSys = Some (evs, s')
       \<and> avalancheX (game s') \<le> p_x (player (game s')) + 100)"
proof -
  from firstFrame obtain evs s' where st: "sysStep (Frame 10 rndHalf) startedSys = Some (evs, s')"
    by blast
  from lateFrame_runs obtain evl sl where sl: "sysStep lateFrame startedSys = Some (evl, sl)"
    by blast
  have "\<not> isStart (Frame 10 rndHalf) \<and> (\<forall>e r. Frame 10 rndHalf = Frame e r \<longrightarrow> 0 \<le> e)"
    by simp
  with avalanche_clamped_monotone [OF startedSys_reached st]
  have "avalancheX (game startedSys) \<le> avalancheX (game s')
       \<and> avalancheX (game s') \<le> p_x (player (game s')) + 100"
    by blast
  moreover from avalanche_clamped_monotone [OF startedSys_reached sl]
  have "avalancheX (game sl) \<le> p_x (player (game sl)) + 100" by blast
  moreover have "avalancheX (game startedSys) = - 800"
    by (simp add: startedSys_def start_defs)
  ultimately show ?thesis using startedSys_reached st sl by blast
qed


section \<open>Death and the game-over notification\<close>





































end
